theory Spec2Isabelle
  imports Complex_Main "HOL-Library.Word" "HOL-Library.Monad_Syntax" "HOL-Library.Sublist"
begin

unbundle bit_operations_syntax

chapter \<open>The CORE reference rasterizer: a shallow embedding\<close>

text \<open>
  The development follows the C++ sources of the reference software rasterizer
  (\<^verbatim>\<open>pvr_mem.h\<close>, \<^verbatim>\<open>TexUtils.h\<close>, \<^verbatim>\<open>TexUtils.cc\<close>, \<^verbatim>\<open>refsw_lists.cc\<close>,
  \<^verbatim>\<open>refsw_lists_regtypes.h\<close>, \<^verbatim>\<open>pvr_regs.h\<close>). Values of type \<^verbatim>\<open>uint32_t\<close> are
  \<^typ>\<open>32 word\<close>, \<^verbatim>\<open>uint16_t\<close> is \<^typ>\<open>16 word\<close> and \<^verbatim>\<open>uint8_t\<close> is \<^typ>\<open>8 word\<close>.
  Bit-fields are read with shifts and masks, least significant field first, which is the
  layout of the little-endian ABIs the code is built for.
\<close>

section \<open>Definitions\<close>

subsection \<open>\<^verbatim>\<open>pvr_mem.h\<close>: the VRAM address map\<close>

definition VRAM_SIZE :: "32 word" where
  "VRAM_SIZE = 8 * 1024 * 1024"

definition VRAM_MASK :: "32 word" where
  "VRAM_MASK = VRAM_SIZE - 1"

definition VRAM_BANK_BIT :: "32 word" where
  "VRAM_BANK_BIT = 0x400000"

definition pvr_map32 :: "32 word \<Rightarrow> 32 word" where
  "pvr_map32 offset32 =
    (let static_bits = (VRAM_MASK - (VRAM_BANK_BIT * 2 - 1)) OR 3;
         offset_bits = (VRAM_BANK_BIT - 1) AND NOT 3;
         bank = (offset32 AND VRAM_BANK_BIT) div VRAM_BANK_BIT;
         rv = offset32 AND static_bits;
         rv = rv OR (offset32 AND offset_bits) * 2;
         rv = rv OR bank * 4
     in rv)"

subsection \<open>\<^verbatim>\<open>pvr_mem.h\<close>: reading and writing VRAM\<close>

text \<open>
  \<^verbatim>\<open>emu_vram\<close> is a byte array of \<open>VRAM_SIZE\<close> bytes. It is modelled as a function from
  byte index to byte; an index at or above \<open>VRAM_SIZE\<close> stands for memory beyond the
  array. \<open>vri\<close> reads four bytes as a little-endian word. The two write functions store
  two or four bytes starting at \<open>pvr_map32 addr\<close>; the value \<open>vaddr\<close> they compute is not
  used by the code. A store that touches a byte beyond the array is undefined behaviour
  in C++: the model performs the store and stops there, with the result
  \<open>Inl (WriteOutOfBounds, vram')\<close>, where \<open>vram'\<close> is the memory after the store. A value
  \<open>Inl (e, vram')\<close> in general says that the run stopped for the reason \<open>e\<close> with the
  memory \<open>vram'\<close>.
\<close>

type_synonym vram = "nat \<Rightarrow> 8 word"

definition vri :: "vram \<Rightarrow> 32 word \<Rightarrow> 32 word" where
  "vri vram addr =
    (let i = unat (pvr_map32 addr) in
       ucast (vram i) OR push_bit 8 (ucast (vram (i + 1)))
       OR push_bit 16 (ucast (vram (i + 2))) OR push_bit 24 (ucast (vram (i + 3))))"

datatype stop = AssertionFailed | WriteOutOfBounds

definition pvr_write_area1_16 :: "vram \<Rightarrow> 32 word \<Rightarrow> 16 word \<Rightarrow> stop \<times> vram + vram" where
  "pvr_write_area1_16 vram addr data =
    (let vaddr = addr AND VRAM_MASK;
         i = unat (pvr_map32 addr);
         vram' = vram(i := ucast data, i + 1 := ucast (drop_bit 8 data))
     in if i + 2 \<le> unat VRAM_SIZE
        then Inr vram'
        else Inl (WriteOutOfBounds, vram'))"

definition pvr_write_area1_32 :: "vram \<Rightarrow> 32 word \<Rightarrow> 32 word \<Rightarrow> stop \<times> vram + vram" where
  "pvr_write_area1_32 vram addr data =
    (let vaddr = addr AND VRAM_MASK;
         i = unat (pvr_map32 addr);
         vram' = vram(i := ucast data, i + 1 := ucast (drop_bit 8 data),
                      i + 2 := ucast (drop_bit 16 data), i + 3 := ucast (drop_bit 24 data))
     in if i + 4 \<le> unat VRAM_SIZE
        then Inr vram'
        else Inl (WriteOutOfBounds, vram'))"


subsection \<open>\<^verbatim>\<open>pvr_regs.h\<close>, \<^verbatim>\<open>refsw_lists_regtypes.h\<close>, \<^verbatim>\<open>core_structs.h\<close>: registers and bit-fields\<close>

text \<open>
  \<^verbatim>\<open>emu_regs\<close> is an array of 32-bit words; \<open>PvrReg\<close> is the macro of that name. A bit-field
  of \<open>len\<close> bits starting at bit \<open>lo\<close> is read by \<open>bitfield lo len\<close> and assigned by
  \<open>set_bitfield lo len\<close>, which truncates the assigned value to the field width as C++ does.
  Unions are represented by their \<^verbatim>\<open>full\<close> word.
\<close>

type_synonym regs = "nat \<Rightarrow> 32 word"

definition pvr_RegSize :: nat where "pvr_RegSize = 0x8000"
definition pvr_RegMask :: nat where "pvr_RegMask = pvr_RegSize - 1"

definition PvrReg :: "regs \<Rightarrow> nat \<Rightarrow> 32 word" where
  "PvrReg emu_regs x = emu_regs ((x div 4) AND pvr_RegMask)"

definition PARAM_BASE_addr :: nat where "PARAM_BASE_addr = 0x20"
definition REGION_BASE_addr :: nat where "REGION_BASE_addr = 0x2C"
definition FB_W_CTRL_addr :: nat where "FB_W_CTRL_addr = 0x48"
definition FB_W_LINESTRIDE_addr :: nat where "FB_W_LINESTRIDE_addr = 0x4C"
definition FB_W_SOF1_addr :: nat where "FB_W_SOF1_addr = 0x60"
definition FB_W_SOF2_addr :: nat where "FB_W_SOF2_addr = 0x64"
definition FPU_SHAD_SCALE_addr :: nat where "FPU_SHAD_SCALE_addr = 0x74"
definition FPU_PARAM_CFG_addr :: nat where "FPU_PARAM_CFG_addr = 0x7C"
definition ISP_BACKGND_D_addr :: nat where "ISP_BACKGND_D_addr = 0x88"
definition ISP_BACKGND_T_addr :: nat where "ISP_BACKGND_T_addr = 0x8C"
definition ISP_FEED_CFG_addr :: nat where "ISP_FEED_CFG_addr = 0x98"
definition SCALER_CTL_addr :: nat where "SCALER_CTL_addr = 0xF4"

definition bitfield :: "nat \<Rightarrow> nat \<Rightarrow> 32 word \<Rightarrow> 32 word" where
  "bitfield lo len w = take_bit len (drop_bit lo w)"

definition set_bitfield :: "nat \<Rightarrow> nat \<Rightarrow> 32 word \<Rightarrow> 32 word \<Rightarrow> 32 word" where
  "set_bitfield lo len v w = (w AND NOT (push_bit lo (mask len))) OR push_bit lo (take_bit len v)"


definition PARAM_BASE :: "regs \<Rightarrow> 32 word" where "PARAM_BASE r = PvrReg r PARAM_BASE_addr"
definition REGION_BASE :: "regs \<Rightarrow> 32 word" where "REGION_BASE r = PvrReg r REGION_BASE_addr"
definition FB_W_CTRL :: "regs \<Rightarrow> 32 word" where "FB_W_CTRL r = PvrReg r FB_W_CTRL_addr"
definition FB_W_LINESTRIDE :: "regs \<Rightarrow> 32 word" where "FB_W_LINESTRIDE r = PvrReg r FB_W_LINESTRIDE_addr"
definition FB_W_SOF1 :: "regs \<Rightarrow> 32 word" where "FB_W_SOF1 r = PvrReg r FB_W_SOF1_addr"
definition FB_W_SOF2 :: "regs \<Rightarrow> 32 word" where "FB_W_SOF2 r = PvrReg r FB_W_SOF2_addr"
definition FPU_SHAD_SCALE :: "regs \<Rightarrow> 32 word" where "FPU_SHAD_SCALE r = PvrReg r FPU_SHAD_SCALE_addr"
definition FPU_PARAM_CFG :: "regs \<Rightarrow> 32 word" where "FPU_PARAM_CFG r = PvrReg r FPU_PARAM_CFG_addr"
definition ISP_BACKGND_D :: "regs \<Rightarrow> 32 word" where "ISP_BACKGND_D r = PvrReg r ISP_BACKGND_D_addr"
definition ISP_BACKGND_T :: "regs \<Rightarrow> 32 word" where "ISP_BACKGND_T r = PvrReg r ISP_BACKGND_T_addr"
definition ISP_FEED_CFG :: "regs \<Rightarrow> 32 word" where "ISP_FEED_CFG r = PvrReg r ISP_FEED_CFG_addr"
definition SCALER_CTL :: "regs \<Rightarrow> 32 word" where "SCALER_CTL r = PvrReg r SCALER_CTL_addr"

definition vscalefactor :: "32 word \<Rightarrow> 32 word" where "vscalefactor = bitfield 0 16"
definition hscale :: "32 word \<Rightarrow> 32 word" where "hscale = bitfield 16 1"
definition interlace :: "32 word \<Rightarrow> 32 word" where "interlace = bitfield 17 1"
definition fieldselect :: "32 word \<Rightarrow> 32 word" where "fieldselect = bitfield 18 1"
definition fb_packmode :: "32 word \<Rightarrow> 32 word" where "fb_packmode = bitfield 0 3"
definition stride :: "32 word \<Rightarrow> 32 word" where "stride = bitfield 0 9"
definition intensity_shadow :: "32 word \<Rightarrow> 32 word" where "intensity_shadow = bitfield 8 1"
definition region_header_type :: "32 word \<Rightarrow> 32 word" where "region_header_type = bitfield 21 1"
definition feed_pre_sort :: "32 word \<Rightarrow> 32 word" where "feed_pre_sort = bitfield 0 1"

definition tilex :: "32 word \<Rightarrow> 32 word" where "tilex = bitfield 2 6"
definition tiley :: "32 word \<Rightarrow> 32 word" where "tiley = bitfield 8 6"
definition no_writeout :: "32 word \<Rightarrow> 32 word" where "no_writeout = bitfield 28 1"
definition pre_sort :: "32 word \<Rightarrow> 32 word" where "pre_sort = bitfield 29 1"
definition z_keep :: "32 word \<Rightarrow> 32 word" where "z_keep = bitfield 30 1"
definition last_region :: "32 word \<Rightarrow> 32 word" where "last_region = bitfield 31 1"

definition ptr_in_words :: "32 word \<Rightarrow> 32 word" where "ptr_in_words = bitfield 2 22"
definition empty_list :: "32 word \<Rightarrow> 32 word" where "empty_list = bitfield 31 1"

definition param_offs_in_words :: "32 word \<Rightarrow> 32 word" where "param_offs_in_words = bitfield 0 21"
definition skip :: "32 word \<Rightarrow> 32 word" where "skip = bitfield 21 3"
definition shadow :: "32 word \<Rightarrow> 32 word" where "shadow = bitfield 24 1"
definition strip_mask :: "32 word \<Rightarrow> 32 word" where "strip_mask = bitfield 25 6"
definition is_not_triangle_strip :: "32 word \<Rightarrow> 32 word" where "is_not_triangle_strip = bitfield 31 1"
definition prims :: "32 word \<Rightarrow> 32 word" where "prims = bitfield 25 4"
definition obj_type :: "32 word \<Rightarrow> 32 word" where "obj_type = bitfield 29 3"
definition next_block_ptr_in_words :: "32 word \<Rightarrow> 32 word" where "next_block_ptr_in_words = bitfield 2 22"
definition end_of_list :: "32 word \<Rightarrow> 32 word" where "end_of_list = bitfield 28 1"

definition CacheBypass :: "32 word \<Rightarrow> 32 word" where "CacheBypass = bitfield 21 1"
definition VolumeMode :: "32 word \<Rightarrow> 32 word" where "VolumeMode = bitfield 29 3"

definition tag_offset :: "32 word \<Rightarrow> 32 word" where "tag_offset = bitfield 0 3"


text \<open>
  \<^verbatim>\<open>RegionArrayEntry\<close> holds the six \<^verbatim>\<open>full\<close> words. \<^verbatim>\<open>taRECT\<close>, \<^verbatim>\<open>RenderMode\<close>, the tile
  buffers and the functions working on them are declared in \<^verbatim>\<open>refsw_tile.h\<close>, which is not
  part of the sources at hand. The calls made to them are the constructors of
  \<open>tile_call\<close>; their effect on the tile buffers (of an arbitrary type \<open>'t\<close>) is the
  parameter \<open>tile_exec\<close> of the record \<open>refsw_tile\<close>, which also carries the queries
  \<^verbatim>\<open>GetMoreToDraw\<close>, \<^verbatim>\<open>GetColorOutputBuffer\<close>, \<^verbatim>\<open>decode_pvr_vertices\<close> (returning the decoded
  parameters, the vertex array and the next read pointer) and the \<^verbatim>\<open>isp\<close> word of decoded
  parameters. \<^verbatim>\<open>PeelBuffersPTInitial\<close> and \<^verbatim>\<open>PeelBuffers\<close> are always called with the
  constants \<^verbatim>\<open>FLT_MAX\<close> and \<^verbatim>\<open>0\<close>, which are left out; \<open>ClearBuffers\<close> carries the background
  tag, the raw bits of the background depth and the stencil value. None of these
  functions writes VRAM: the only stores are those of the writeback.
\<close>

record RegionArrayEntry =
  control :: "32 word"
  opaque :: "32 word"
  opaque_mod :: "32 word"
  trans :: "32 word"
  trans_mod :: "32 word"
  puncht :: "32 word"

record taRECT =
  rect_left :: "32 word"
  rect_top :: "32 word"
  rect_right :: "32 word"
  rect_bottom :: "32 word"

datatype RenderMode =
    RM_OPAQUE
  | RM_PUNCHTHROUGH_PASS0
  | RM_PUNCHTHROUGH_PASSN
  | RM_PUNCHTHROUGH_MV
  | RM_TRANSLUCENT_AUTOSORT
  | RM_TRANSLUCENT_PRESORT
  | RM_MODIFIER

datatype ('p, 'v) tile_call =
    ClearFpuCache
  | ClearBuffers "32 word" "32 word" "32 word"
  | ClearParamStatusBuffer
  | RenderParamTags RenderMode "32 word" "32 word"
  | PeelBuffersPTInitial
  | PeelBuffersPT
  | PeelBuffers
  | ClearMoreToDraw
  | SetTagToMax
  | RasterizeTriangle RenderMode 'p "32 word" 'v 'v 'v "'v option" taRECT
  | SummarizeStencilOr
  | SummarizeStencilAnd

record ('t, 'p, 'v) refsw_tile =
  tile_exec :: "('p, 'v) tile_call \<Rightarrow> vram \<Rightarrow> 't \<Rightarrow> 't"
  GetMoreToDraw :: "'t \<Rightarrow> bool"
  GetColorOutputBuffer :: "'t \<Rightarrow> nat \<Rightarrow> 8 word"
  decode_pvr_vertices :: "vram \<Rightarrow> 32 word \<Rightarrow> 32 word \<Rightarrow> bool \<Rightarrow> nat \<Rightarrow> 'p \<times> (nat \<Rightarrow> 'v) \<times> 32 word"
  params_isp :: "'p \<Rightarrow> 32 word"


subsection \<open>\<^verbatim>\<open>refsw_lists.cc\<close>: object lists\<close>

text \<open>
  Loops over a counter are recursive functions on that counter. \<^verbatim>\<open>RenderObjectList\<close> has
  no bound on the number of entries it reads (it ends only at a link entry with
  \<^verbatim>\<open>end_of_list\<close>), so it is a partial function: \<open>None\<close> means that it does not return.
  The \<^verbatim>\<open>printf\<close> of the default case has no effect on the state and is left out.
\<close>

definition RenderTriangle ::
  "('t, 'p, 'v) refsw_tile \<Rightarrow> vram \<Rightarrow> RenderMode \<Rightarrow> 'p \<Rightarrow> 32 word \<Rightarrow> 'v \<Rightarrow> 'v \<Rightarrow> 'v \<Rightarrow> 'v option
    \<Rightarrow> taRECT \<Rightarrow> 't \<Rightarrow> 't" where
  "RenderTriangle api vram render_mode params tag v1 v2 v3 v4 area t =
    (let t = tile_exec api (RasterizeTriangle render_mode params tag v1 v2 v3 v4 area) vram t;
         t = (if render_mode = RM_TRANSLUCENT_PRESORT
              then tile_exec api (RenderParamTags RM_TRANSLUCENT_PRESORT (rect_left area) (rect_top area)) vram t
              else t)
     in if render_mode = RM_MODIFIER
        then (if VolumeMode (params_isp api params) = 1 then tile_exec api SummarizeStencilOr vram t
              else if VolumeMode (params_isp api params) = 2 then tile_exec api SummarizeStencilAnd vram t
              else t)
        else t)"

definition ReadRegionArrayEntry :: "regs \<Rightarrow> vram \<Rightarrow> 32 word \<Rightarrow> RegionArrayEntry \<times> 32 word" where
  "ReadRegionArrayEntry r vram base =
    (let fmt_v1 = (region_header_type (FPU_PARAM_CFG r) = 0);
         entry = \<lparr> control = vri vram base,
                   opaque = vri vram (base + 4),
                   opaque_mod = vri vram (base + 8),
                   trans = vri vram (base + 12),
                   trans_mod = vri vram (base + 16),
                   puncht = 0 \<rparr>
     in if fmt_v1
        then (entry \<lparr> control := set_bitfield 29 1 (feed_pre_sort (ISP_FEED_CFG r)) (control entry),
                      puncht := 0x80000000 \<rparr>, 5 * 4)
        else (entry \<lparr> puncht := vri vram (base + 20) \<rparr>, 6 * 4))"

definition CoreTagFromDesc :: "32 word \<Rightarrow> 32 word \<Rightarrow> 32 word \<Rightarrow> 32 word \<Rightarrow> 32 word \<Rightarrow> 32 word" where
  "CoreTagFromDesc cache_bypass shadow' skip' param_offs_in_words' tag_offset' =
    (let rv = 0;
         rv = set_bitfield 0 3 tag_offset' rv;
         rv = set_bitfield 3 21 param_offs_in_words' rv;
         rv = set_bitfield 24 3 skip' rv;
         rv = set_bitfield 27 1 shadow' rv;
         rv = set_bitfield 28 1 cache_bypass rv
     in rv)"

definition two_volumes_of :: "regs \<Rightarrow> 32 word \<Rightarrow> bool" where
  "two_volumes_of r obj = ((shadow obj AND NOT (intensity_shadow (FPU_SHAD_SCALE r))) \<noteq> 0)"

function strip_loop ::
  "('t, 'p, 'v) refsw_tile \<Rightarrow> vram \<Rightarrow> RenderMode \<Rightarrow> 32 word \<Rightarrow> 'p \<Rightarrow> (nat \<Rightarrow> 'v) \<Rightarrow> taRECT
    \<Rightarrow> nat \<Rightarrow> 't \<Rightarrow> 't" where
  "strip_loop api vram render_mode obj params vtx rect i t =
    (if i < 6
     then strip_loop api vram render_mode obj params vtx rect (i + 1)
            (if strip_mask obj AND push_bit (5 - i) 1 \<noteq> 0
             then (let tag = CoreTagFromDesc (CacheBypass (params_isp api params)) (shadow obj) (skip obj)
                               (param_offs_in_words obj) (of_nat i);
                       not_even = i AND 1;
                       even = not_even XOR 1
                   in RenderTriangle api vram render_mode params tag
                        (vtx (i + not_even)) (vtx (i + even)) (vtx (i + 2)) None rect t)
             else t)
     else t)"
  by pat_completeness auto
termination
  by (relation "measure (\<lambda>(api, vram, render_mode, obj, params, vtx, rect, i, t). 6 - i)") auto

definition RenderTriangleStrip ::
  "('t, 'p, 'v) refsw_tile \<Rightarrow> regs \<Rightarrow> vram \<Rightarrow> RenderMode \<Rightarrow> 32 word \<Rightarrow> taRECT \<Rightarrow> 't \<Rightarrow> 't" where
  "RenderTriangleStrip api r vram render_mode obj rect t =
    (let param_base = PARAM_BASE r AND 0xF00000;
         tag_address = param_base + param_offs_in_words obj * 4;
         two_volumes = two_volumes_of r obj;
         (params, vtx, next) = decode_pvr_vertices api vram tag_address (skip obj) two_volumes 8
     in strip_loop api vram render_mode obj params vtx rect 0 t)"

function triangle_array_loop ::
  "('t, 'p, 'v) refsw_tile \<Rightarrow> regs \<Rightarrow> vram \<Rightarrow> RenderMode \<Rightarrow> 32 word \<Rightarrow> taRECT
    \<Rightarrow> nat \<Rightarrow> 32 word \<Rightarrow> 't \<Rightarrow> 't" where
  "triangle_array_loop api r vram render_mode obj rect i param_ptr t =
    (if i < unat (prims obj + 1)
     then (let param_base = PARAM_BASE r AND 0xF00000;
               two_volumes = two_volumes_of r obj;
               tag_address = param_ptr;
               (params, vtx, param_ptr) =
                  decode_pvr_vertices api vram tag_address (skip obj) two_volumes 3;
               tag = CoreTagFromDesc (CacheBypass (params_isp api params)) (shadow obj) (skip obj)
                       ((tag_address - param_base) div 4) 0
           in triangle_array_loop api r vram render_mode obj rect (i + 1) param_ptr
                (RenderTriangle api vram render_mode params tag (vtx 0) (vtx 1) (vtx 2) None rect t))
     else t)"
  by pat_completeness auto
termination
  by (relation "measure (\<lambda>(api, r, vram, render_mode, obj, rect, i, param_ptr, t).
        unat (prims obj + 1) - i)") auto

definition RenderTriangleArray ::
  "('t, 'p, 'v) refsw_tile \<Rightarrow> regs \<Rightarrow> vram \<Rightarrow> RenderMode \<Rightarrow> 32 word \<Rightarrow> taRECT \<Rightarrow> 't \<Rightarrow> 't" where
  "RenderTriangleArray api r vram render_mode obj rect t =
    (let param_base = PARAM_BASE r AND 0xF00000;
         param_ptr = param_base + param_offs_in_words obj * 4
     in triangle_array_loop api r vram render_mode obj rect 0 param_ptr t)"

function quad_array_loop ::
  "('t, 'p, 'v) refsw_tile \<Rightarrow> regs \<Rightarrow> vram \<Rightarrow> RenderMode \<Rightarrow> 32 word \<Rightarrow> taRECT
    \<Rightarrow> nat \<Rightarrow> 32 word \<Rightarrow> 't \<Rightarrow> 't" where
  "quad_array_loop api r vram render_mode obj rect i param_ptr t =
    (if i < unat (prims obj + 1)
     then (let param_base = PARAM_BASE r AND 0xF00000;
               two_volumes = two_volumes_of r obj;
               tag_address = param_ptr;
               (params, vtx, param_ptr) =
                  decode_pvr_vertices api vram tag_address (skip obj) two_volumes 4;
               tag = CoreTagFromDesc (CacheBypass (params_isp api params)) (shadow obj) (skip obj)
                       ((tag_address - param_base) div 4) 0
           in quad_array_loop api r vram render_mode obj rect (i + 1) param_ptr
                (RenderTriangle api vram render_mode params tag (vtx 0) (vtx 1) (vtx 2)
                   (Some (vtx 3)) rect t))
     else t)"
  by pat_completeness auto
termination
  by (relation "measure (\<lambda>(api, r, vram, render_mode, obj, rect, i, param_ptr, t).
        unat (prims obj + 1) - i)") auto

definition RenderQuadArray ::
  "('t, 'p, 'v) refsw_tile \<Rightarrow> regs \<Rightarrow> vram \<Rightarrow> RenderMode \<Rightarrow> 32 word \<Rightarrow> taRECT \<Rightarrow> 't \<Rightarrow> 't" where
  "RenderQuadArray api r vram render_mode obj rect t =
    (let param_base = PARAM_BASE r AND 0xF00000;
         param_ptr = param_base + param_offs_in_words obj * 4
     in quad_array_loop api r vram render_mode obj rect 0 param_ptr t)"

partial_function (option) RenderObjectList ::
  "('t, 'p, 'v) refsw_tile \<Rightarrow> regs \<Rightarrow> vram \<Rightarrow> RenderMode \<Rightarrow> taRECT \<Rightarrow> 32 word \<Rightarrow> 't \<Rightarrow> 't option" where
  "RenderObjectList api r vram render_mode rect base t =
    (let obj = vri vram base;
         base = base + 4
     in if is_not_triangle_strip obj = 0
        then RenderObjectList api r vram render_mode rect base
               (RenderTriangleStrip api r vram render_mode obj rect t)
        else if obj_type obj = 7
        then (if end_of_list obj \<noteq> 0 then Some t
              else RenderObjectList api r vram render_mode rect (next_block_ptr_in_words obj * 4) t)
        else if obj_type obj = 4
        then RenderObjectList api r vram render_mode rect base
               (RenderTriangleArray api r vram render_mode obj rect t)
        else if obj_type obj = 5
        then RenderObjectList api r vram render_mode rect base
               (RenderQuadArray api r vram render_mode obj rect t)
        else RenderObjectList api r vram render_mode rect base t)"



subsection \<open>\<^verbatim>\<open>refsw_lists.cc\<close>: the passes of one tile\<close>

text \<open>
  The body of the region loop of \<^verbatim>\<open>RenderCORE\<close>, cut at its comments: clearing, the
  opaque lists, the punch-through peel, the translucent pass. The two peel loops run
  while \<^verbatim>\<open>GetMoreToDraw\<close> says so and are partial functions.
\<close>

definition tile_rect :: "RegionArrayEntry \<Rightarrow> taRECT" where
  "tile_rect entry =
    (let top = tiley (control entry) * 32;
         left = tilex (control entry) * 32
     in \<lparr> rect_left = left, rect_top = top, rect_right = left + 32, rect_bottom = top + 32 \<rparr>)"

definition tile_clear :: "('t, 'p, 'v) refsw_tile \<Rightarrow> regs \<Rightarrow> vram \<Rightarrow> RegionArrayEntry \<Rightarrow> 't \<Rightarrow> 't" where
  "tile_clear api r vram entry t =
    (let t = tile_exec api ClearFpuCache vram t;
         bgTag = ISP_BACKGND_T r
     in if z_keep (control entry) = 0
        then tile_exec api (ClearBuffers bgTag (ISP_BACKGND_D r) 0) vram t
        else tile_exec api ClearParamStatusBuffer vram t)"

definition tile_opaque ::
  "('t, 'p, 'v) refsw_tile \<Rightarrow> regs \<Rightarrow> vram \<Rightarrow> RegionArrayEntry \<Rightarrow> taRECT \<Rightarrow> 't \<Rightarrow> 't option" where
  "tile_opaque api r vram entry rect t =
    (if empty_list (opaque entry) = 0
     then do {
       t \<leftarrow> RenderObjectList api r vram RM_OPAQUE rect (ptr_in_words (opaque entry) * 4) t;
       if empty_list (opaque_mod entry) = 0
       then RenderObjectList api r vram RM_MODIFIER rect (ptr_in_words (opaque_mod entry) * 4) t
       else Some t
     }
     else Some t)"

partial_function (option) punchthrough_peel ::
  "('t, 'p, 'v) refsw_tile \<Rightarrow> regs \<Rightarrow> vram \<Rightarrow> RegionArrayEntry \<Rightarrow> taRECT \<Rightarrow> 't \<Rightarrow> 't option" where
  "punchthrough_peel api r vram entry rect t =
    (if GetMoreToDraw api t
     then do {
       t \<leftarrow> RenderObjectList api r vram RM_PUNCHTHROUGH_PASSN rect (ptr_in_words (puncht entry) * 4)
              (tile_exec api ClearMoreToDraw vram t);
       if \<not> GetMoreToDraw api t then Some t
       else punchthrough_peel api r vram entry rect
              (tile_exec api (RenderParamTags RM_PUNCHTHROUGH_PASS0 (rect_left rect) (rect_top rect)) vram
                (tile_exec api PeelBuffersPT vram
                  (tile_exec api ClearMoreToDraw vram t)))
     }
     else Some t)"

definition tile_punchthrough ::
  "('t, 'p, 'v) refsw_tile \<Rightarrow> regs \<Rightarrow> vram \<Rightarrow> RegionArrayEntry \<Rightarrow> taRECT \<Rightarrow> 't \<Rightarrow> 't option" where
  "tile_punchthrough api r vram entry rect t =
    (if empty_list (puncht entry) = 0
     then do {
       t \<leftarrow> RenderObjectList api r vram RM_PUNCHTHROUGH_PASS0 rect (ptr_in_words (puncht entry) * 4)
              (tile_exec api ClearMoreToDraw vram
                (tile_exec api PeelBuffersPTInitial vram t));
       t \<leftarrow> punchthrough_peel api r vram entry rect
              (tile_exec api (RenderParamTags RM_PUNCHTHROUGH_PASS0 (rect_left rect) (rect_top rect)) vram
                (tile_exec api PeelBuffersPT vram t));
       if empty_list (opaque_mod entry) = 0
       then do {
         t \<leftarrow> RenderObjectList api r vram RM_MODIFIER rect (ptr_in_words (opaque_mod entry) * 4) t;
         Some (tile_exec api (RenderParamTags RM_PUNCHTHROUGH_MV (rect_left rect) (rect_top rect)) vram t)
       }
       else Some t
     }
     else Some t)"

partial_function (option) autosort_peel ::
  "('t, 'p, 'v) refsw_tile \<Rightarrow> regs \<Rightarrow> vram \<Rightarrow> RegionArrayEntry \<Rightarrow> taRECT \<Rightarrow> 't \<Rightarrow> 't option" where
  "autosort_peel api r vram entry rect t =
    do {
      t \<leftarrow> RenderObjectList api r vram RM_TRANSLUCENT_AUTOSORT rect (ptr_in_words (trans entry) * 4)
             (tile_exec api PeelBuffers vram
               (tile_exec api ClearMoreToDraw vram t));
      t \<leftarrow> (if empty_list (trans_mod entry) = 0
            then RenderObjectList api r vram RM_MODIFIER rect (ptr_in_words (trans_mod entry) * 4) t
            else Some t);
      let t = tile_exec api (RenderParamTags RM_TRANSLUCENT_AUTOSORT (rect_left rect) (rect_top rect)) vram t
      in if GetMoreToDraw api t then autosort_peel api r vram entry rect t else Some t
    }"

definition tile_translucent ::
  "('t, 'p, 'v) refsw_tile \<Rightarrow> regs \<Rightarrow> vram \<Rightarrow> RegionArrayEntry \<Rightarrow> taRECT \<Rightarrow> 't \<Rightarrow> 't option" where
  "tile_translucent api r vram entry rect t =
    (if empty_list (trans entry) = 0
     then (if pre_sort (control entry) \<noteq> 0
           then RenderObjectList api r vram RM_TRANSLUCENT_PRESORT rect (ptr_in_words (trans entry) * 4)
                  (tile_exec api ClearParamStatusBuffer vram t)
           else autosort_peel api r vram entry rect (tile_exec api SetTagToMax vram t))
     else Some t)"

definition tile_passes ::
  "('t, 'p, 'v) refsw_tile \<Rightarrow> regs \<Rightarrow> vram \<Rightarrow> RegionArrayEntry \<Rightarrow> 't \<Rightarrow> 't option" where
  "tile_passes api r vram entry t =
    (let rect = tile_rect entry in
     do {
       t \<leftarrow> tile_opaque api r vram entry rect (tile_clear api r vram entry t);
       t \<leftarrow> tile_punchthrough api r vram entry rect
              (tile_exec api (RenderParamTags RM_OPAQUE (rect_left rect) (rect_top rect)) vram t);
       tile_translucent api r vram entry rect t
     })"



subsection \<open>\<^verbatim>\<open>refsw_lists.cc\<close>: writeback\<close>

text \<open>
  The arithmetic of the RGB565 quantization is on \<^verbatim>\<open>int\<close>; all values are between 0 and
  \<open>255 * 63 + 248\<close>, so there is no overflow and the truncating division of C++ agrees
  with \<open>div\<close>. The destination address is \<^verbatim>\<open>uint32_t\<close> arithmetic. An \<^verbatim>\<open>assert\<close> that fails
  aborts the process (assertions are compiled in unless \<^verbatim>\<open>NDEBUG\<close> is defined); this is
  the result \<open>Inl (AssertionFailed, vram)\<close>, with the memory as it is at the assertion.
\<close>

definition bayerBias :: "int list list" where
  "bayerBias = [[8, 136, 40, 168], [200, 72, 232, 104], [56, 184, 24, 152], [248, 120, 216, 88]]"

definition clamp_component :: "int \<Rightarrow> int \<Rightarrow> int" where
  "clamp_component hi v = (if v < 0 then 0 else if v > hi then hi else v)"

definition pixel565 :: "int \<Rightarrow> int \<Rightarrow> 8 word \<Rightarrow> 8 word \<Rightarrow> 8 word \<Rightarrow> int" where
  "pixel565 x y src0 src1 src2 =
    (let r8 = uint src0; g8 = uint src1; b8 = uint src2;
         T = bayerBias ! nat (y AND 3) ! nat (x AND 3);
         r5 = (r8 * 31 + T) div 255;
         g6 = (g8 * 63 + T) div 255;
         b5 = (b8 * 31 + T) div 255;
         r5 = clamp_component 31 r5;
         g6 = clamp_component 63 g6;
         b5 = clamp_component 31 b5
     in push_bit 0 r5 OR push_bit 5 g6 OR push_bit 11 b5)"

definition pixel8888 :: "8 word \<Rightarrow> 8 word \<Rightarrow> 8 word \<Rightarrow> 8 word \<Rightarrow> 32 word" where
  "pixel8888 src0 src1 src2 src3 =
     ucast src0 + ucast src1 * 256 + ucast src2 * 256 * 256 + ucast src3 * 256 * 256 * 256"

definition write_pixel ::
  "32 word \<Rightarrow> (nat \<Rightarrow> 8 word) \<Rightarrow> nat \<Rightarrow> nat \<Rightarrow> 32 word \<Rightarrow> nat \<Rightarrow> vram \<Rightarrow> stop \<times> vram + vram" where
  "write_pixel packmode src_buf x y dst src vram =
    (if packmode = 1
     then pvr_write_area1_16 vram dst
            (word_of_int (pixel565 (int x) (int y) (src_buf src) (src_buf (src + 1)) (src_buf (src + 2))))
     else pvr_write_area1_32 vram dst
            (pixel8888 (src_buf src) (src_buf (src + 1)) (src_buf (src + 2)) (src_buf (src + 3))))"

function writeout_row ::
  "32 word \<Rightarrow> (nat \<Rightarrow> 8 word) \<Rightarrow> nat \<Rightarrow> nat \<Rightarrow> 32 word \<Rightarrow> nat \<Rightarrow> vram \<Rightarrow> stop \<times> vram + nat \<times> vram" where
  "writeout_row packmode src_buf y x dst src vram =
    (if x < 32
     then (case write_pixel packmode src_buf x y dst src vram of
             Inl e \<Rightarrow> Inl e
           | Inr vram' \<Rightarrow>
               writeout_row packmode src_buf y (x + 1)
                 (dst + (if packmode = 1 then 2 else 4)) (src + 4) vram')
     else Inr (src, vram))"
  by pat_completeness auto
termination
  by (relation "measure (\<lambda>(packmode, src_buf, y, x, dst, src, vram). 32 - x)") auto

function writeout_rows ::
  "regs \<Rightarrow> RegionArrayEntry \<Rightarrow> 32 word \<Rightarrow> (nat \<Rightarrow> 8 word) \<Rightarrow> nat \<Rightarrow> nat \<Rightarrow> vram \<Rightarrow> stop \<times> vram + vram" where
  "writeout_rows r entry base src_buf y src vram =
    (if y < 32
     then (let packmode = fb_packmode (FB_W_CTRL r);
               bpp = (if packmode = 1 then 2 else 4);
               offset_bytes = tilex (control entry) * 32 * bpp
                              + tiley (control entry) * 32 * stride (FB_W_LINESTRIDE r) * 8;
               dst = base + offset_bytes + of_nat y * stride (FB_W_LINESTRIDE r) * 8
           in case writeout_row packmode src_buf y 0 dst src vram of
                Inl e \<Rightarrow> Inl e
              | Inr (src', vram') \<Rightarrow> writeout_rows r entry base src_buf (y + 1) src' vram')
     else Inr vram)"
  by pat_completeness auto
termination
  by (relation "measure (\<lambda>(r, entry, base, src_buf, y, src, vram). 32 - y)") auto

definition c_assert :: "bool \<Rightarrow> vram \<Rightarrow> (stop \<times> vram + 'a) \<Rightarrow> stop \<times> vram + 'a" where
  "c_assert cond vram rest = (if cond then rest else Inl (AssertionFailed, vram))"

definition tile_writeout ::
  "regs \<Rightarrow> RegionArrayEntry \<Rightarrow> (nat \<Rightarrow> 8 word) \<Rightarrow> vram \<Rightarrow> stop \<times> vram + vram" where
  "tile_writeout r entry copy vram =
    (let field = fieldselect (SCALER_CTL r);
         interlace' = interlace (SCALER_CTL r);
         base = (if interlace' \<noteq> 0 \<and> field \<noteq> 0 then FB_W_SOF2 r else FB_W_SOF1 r)
     in c_assert (hscale (SCALER_CTL r) = 0) vram
       (c_assert (interlace (SCALER_CTL r) = 0) vram
       (let vscale = vscalefactor (SCALER_CTL r)
        in c_assert (vscale = 0x401 \<or> vscale = 0x400 \<or> vscale = 0x800) vram
       (let packmode = fb_packmode (FB_W_CTRL r)
        in c_assert (packmode = 1 \<or> packmode = 6) vram
       (writeout_rows r entry base copy 0 0 vram)))))"


subsection \<open>\<^verbatim>\<open>refsw_lists.cc\<close>, \<^verbatim>\<open>refsw2_stub.cc\<close>: the frame\<close>

text \<open>
  \<open>region_loop\<close> is the \<^verbatim>\<open>do ... while (!entry.control.last_region)\<close> loop of
  \<^verbatim>\<open>RenderCORE\<close>. \<open>None\<close> means that the call does not return, \<open>Some (Inl (e, vram, t))\<close>
  that the run stopped for the reason \<open>e\<close> with memory \<open>vram\<close> and tile buffers \<open>t\<close>,
  \<open>Some (Inr s)\<close> that \<^verbatim>\<open>RenderCORE\<close> returned with VRAM and tile buffers \<open>s\<close>.
  \<^verbatim>\<open>RenderCORE\<close> and \<^verbatim>\<open>ffi_refsw2_render\<close> return \<^verbatim>\<open>void\<close>.
\<close>

definition RenderTile ::
  "('t, 'p, 'v) refsw_tile \<Rightarrow> regs \<Rightarrow> RegionArrayEntry \<Rightarrow> vram \<times> 't \<Rightarrow> (stop \<times> vram \<times> 't + vram \<times> 't) option" where
  "RenderTile api r entry s =
    do {
      t \<leftarrow> tile_passes api r (fst s) entry (snd s);
      if no_writeout (control entry) = 0
      then (case tile_writeout r entry (GetColorOutputBuffer api t) (fst s) of
              Inl (e, vram') \<Rightarrow> Some (Inl (e, vram', t))
            | Inr vram' \<Rightarrow> Some (Inr (vram', t)))
      else Some (Inr (fst s, t))
    }"

partial_function (option) region_loop ::
  "('t, 'p, 'v) refsw_tile \<Rightarrow> regs \<Rightarrow> 32 word \<Rightarrow> vram \<times> 't \<Rightarrow> (stop \<times> vram \<times> 't + vram \<times> 't) option" where
  "region_loop api r base s =
    (let (entry, step) = ReadRegionArrayEntry r (fst s) base;
         base = base + step
     in case RenderTile api r entry s of
          None \<Rightarrow> None
        | Some (Inl e) \<Rightarrow> Some (Inl e)
        | Some (Inr s') \<Rightarrow>
            if last_region (control entry) \<noteq> 0 then Some (Inr s')
            else region_loop api r base s')"

definition RenderCORE ::
  "('t, 'p, 'v) refsw_tile \<Rightarrow> regs \<Rightarrow> vram \<times> 't \<Rightarrow> (stop \<times> vram \<times> 't + vram \<times> 't) option" where
  "RenderCORE api r s = region_loop api r (REGION_BASE r) s"

definition ffi_refsw2_render ::
  "('t, 'p, 'v) refsw_tile \<Rightarrow> vram \<Rightarrow> regs \<Rightarrow> 't \<Rightarrow> (stop \<times> vram \<times> 't + vram \<times> 't) option" where
  "ffi_refsw2_render api vram r t = RenderCORE api r (vram, t)"


text \<open>
  \<open>region_walk api r base s base' s'\<close>: starting at \<open>base\<close> in state \<open>s\<close>, the loop
  arrives at \<open>base'\<close> in state \<open>s'\<close> after some number of entries, all with
  \<^verbatim>\<open>last_region = 0\<close> and all of whose tiles were rendered.
\<close>

inductive region_walk ::
  "('t, 'p, 'v) refsw_tile \<Rightarrow> regs \<Rightarrow> 32 word \<Rightarrow> vram \<times> 't \<Rightarrow> 32 word \<Rightarrow> vram \<times> 't \<Rightarrow> bool"
  for api r base s where
    walk_start: "region_walk api r base s base s"
  | walk_next:
      "region_walk api r base s base1 s1 \<Longrightarrow>
       ReadRegionArrayEntry r (fst s1) base1 = (entry, step) \<Longrightarrow>
       last_region (control entry) = 0 \<Longrightarrow>
       RenderTile api r entry s1 = Some (Inr s2) \<Longrightarrow>
       region_walk api r base s (base1 + step) s2"


subsection \<open>\<^verbatim>\<open>TexUtils.h\<close>, \<^verbatim>\<open>TexUtils.cc\<close>: pixel unpacking and tables\<close>

definition ARGB4444_32 :: "16 word \<Rightarrow> 32 word" where
  "ARGB4444_32 word =
    (let w = (ucast word :: 32 word) in
       push_bit 28 (drop_bit 12 w AND 0xF) OR push_bit 4 (drop_bit 0 w AND 0xF)
       OR push_bit 12 (drop_bit 4 w AND 0xF) OR push_bit 20 (drop_bit 8 w AND 0xF))"

text \<open>
  \<open>twiddle_loop\<close> is the \<^verbatim>\<open>while\<close> loop of \<^verbatim>\<open>twiddle_slow\<close>, with all six variables of
  type \<^verbatim>\<open>uint32_t\<close>. It terminates because each round halves a size that is not zero.
\<close>

function twiddle_loop ::
  "32 word \<Rightarrow> 32 word \<Rightarrow> 32 word \<Rightarrow> 32 word \<Rightarrow> 32 word \<Rightarrow> 32 word \<Rightarrow> 32 word" where
  "twiddle_loop x y x_sz y_sz sh rv =
    (if x_sz \<noteq> 0 \<or> y_sz \<noteq> 0
     then
       (let (rv, y, y_sz, sh) =
              (if y_sz \<noteq> 0
               then (let temp = y AND 1
                     in (rv OR push_bit (unat sh) temp, drop_bit 1 y, drop_bit 1 y_sz, sh + 1))
               else (rv, y, y_sz, sh));
            (rv, x, x_sz, sh) =
              (if x_sz \<noteq> 0
               then (let temp = x AND 1
                     in (rv OR push_bit (unat sh) temp, drop_bit 1 x, drop_bit 1 x_sz, sh + 1))
               else (rv, x, x_sz, sh))
        in twiddle_loop x y x_sz y_sz sh rv)
     else rv)"
  by pat_completeness auto
termination
proof (relation "measure (\<lambda>(x, y, x_sz, y_sz, sh, rv). unat x_sz + unat y_sz)", goal_cases)
  case 1
  show ?case by simp
next
  case (2 x y x_sz y_sz sh rv)
  have half: "unat (drop_bit (Suc 0) v) = unat v div 2" for v :: "32 word"
    by (simp add: drop_bit_eq_div unat_div)
  have pos: "0 < unat v" if "v \<noteq> 0" for v :: "32 word"
    using that by (simp add: unat_gt_0)
  have dec: "unat (drop_bit (Suc 0) v) < unat v" if "v \<noteq> 0" for v :: "32 word"
    unfolding half using pos[OF that] by linarith
  from 2 dec[of x_sz] dec[of y_sz] show ?case
    by (auto simp add: Let_def split: if_splits)
qed

definition twiddle_slow :: "32 word \<Rightarrow> 32 word \<Rightarrow> 32 word \<Rightarrow> 32 word \<Rightarrow> 32 word" where
  "twiddle_slow x y x_sz y_sz = twiddle_loop x y (drop_bit 1 x_sz) (drop_bit 1 y_sz) 0 0"


text \<open>
  The tables filled by \<^verbatim>\<open>InitTexUtils\<close>, as functions of their indices (\<open>s < 11\<close>,
  \<open>i < 1024\<close> for \<open>detwiddle\<close>, \<open>i < 256\<close> for the bump-map tables).
\<close>

definition detwiddle :: "nat \<Rightarrow> nat \<Rightarrow> nat \<Rightarrow> 32 word" where
  "detwiddle a s i =
    (let x_sz = 1024;
         y_sz = push_bit s 1
     in if a = 0 then twiddle_slow (of_nat i) 0 x_sz y_sz
        else twiddle_slow 0 (of_nat i) y_sz x_sz)"

text \<open>
  The bump-map tables are computed in single precision and stored in \<^verbatim>\<open>int8_t\<close>. The
  conversion from a floating-point value to an integer type discards the fractional
  part (truncation toward zero). \<^verbatim>\<open>sinf\<close>, \<^verbatim>\<open>cosf\<close> and the products are idealised here as
  the real functions and real multiplication: rounding errors of single precision are
  not modelled.
\<close>

definition float_to_int8 :: "real \<Rightarrow> int" where
  "float_to_int8 v = (if 0 \<le> v then \<lfloor>v\<rfloor> else \<lceil>v\<rceil>)"

definition BM_SIN90 :: "nat \<Rightarrow> int" where
  "BM_SIN90 i = float_to_int8 (127 * sin ((real i / 256) * (pi / 2)))"

definition BM_COS90 :: "nat \<Rightarrow> int" where
  "BM_COS90 i = float_to_int8 (127 * cos ((real i / 256) * (pi / 2)))"

definition BM_COS360 :: "nat \<Rightarrow> int" where
  "BM_COS360 i = float_to_int8 (127 * cos ((real i / 256) * (2 * pi)))"

subsection \<open>Instances used in examples\<close>

text \<open>
  \<open>idle_tile\<close> is a tile back end that does nothing and never asks for another peel;
  \<open>index_tile\<close> is the same with vertex \<open>k\<close> of every decoded array being the number \<open>k\<close>.
  \<open>recording api\<close> behaves as \<open>api\<close> and keeps the list of the calls made.
  \<open>white_tile\<close> is \<open>idle_tile\<close> with a colour output buffer that is white everywhere.
\<close>

definition idle_tile :: "(unit, unit, unit) refsw_tile" where
  "idle_tile = \<lparr> tile_exec = (\<lambda>c vram t. t), GetMoreToDraw = (\<lambda>t. False),
                 GetColorOutputBuffer = (\<lambda>t i. 0),
                 decode_pvr_vertices = (\<lambda>vram a sk tv n. ((), (\<lambda>k. ()), a)),
                 params_isp = (\<lambda>p. 0) \<rparr>"

definition white_tile :: "(unit, unit, unit) refsw_tile" where
  "white_tile = idle_tile \<lparr> GetColorOutputBuffer := (\<lambda>t i. 0xFF) \<rparr>"

definition recording ::
  "('t, 'p, 'v) refsw_tile \<Rightarrow> ('t \<times> ('p, 'v) tile_call list, 'p, 'v) refsw_tile" where
  "recording api =
     \<lparr> tile_exec = (\<lambda>c vram tl. (tile_exec api c vram (fst tl), snd tl @ [c])),
       GetMoreToDraw = (\<lambda>tl. GetMoreToDraw api (fst tl)),
       GetColorOutputBuffer = (\<lambda>tl. GetColorOutputBuffer api (fst tl)),
       decode_pvr_vertices = decode_pvr_vertices api,
       params_isp = params_isp api \<rparr>"


definition index_tile :: "(unit, unit, nat) refsw_tile" where
  "index_tile = \<lparr> tile_exec = (\<lambda>c vram t. t), GetMoreToDraw = (\<lambda>t. False),
                  GetColorOutputBuffer = (\<lambda>t i. 0),
                  decode_pvr_vertices = (\<lambda>vram a sk tv n. ((), (\<lambda>k. k), a)),
                  params_isp = (\<lambda>p. 0) \<rparr>"

definition regs_zero :: regs where
  "regs_zero = (\<lambda>i. 0)"

definition regs_six_words :: regs where
  "regs_six_words = (\<lambda>i. if i = 31 then 0x200000 else 0)"

definition vram_ones :: vram where
  "vram_ones = (\<lambda>p. 0xFF)"

definition vram_no_last :: vram where
  "vram_no_last = (\<lambda>p. if p mod 4 = 3 then (if (p div 8) mod 2 = 1 then 0x80 else 0x10) else 0)"

text \<open>
  \<open>regs_edge\<close> selects the RGB565 pack mode, the vertical scale factor \<open>0x400\<close> and the
  frame buffer start address \<open>0x7FFFFF\<close>; \<open>vram_one_tile\<close> holds the word \<open>0x80000000\<close>
  everywhere: one region entry for tile (0, 0) with \<^verbatim>\<open>last_region\<close> set, writeout enabled
  and all lists empty.
\<close>

definition regs_edge :: regs where
  "regs_edge = (\<lambda>i. if i = 24 then 0x7FFFFF else if i = 18 then 1 else if i = 61 then 0x400 else 0)"

definition vram_one_tile :: vram where
  "vram_one_tile = (\<lambda>p. if p mod 4 = 3 then 0x80 else 0)"

definition zero_rect :: taRECT where
  "zero_rect = \<lparr> rect_left = 0, rect_top = 0, rect_right = 32, rect_bottom = 32 \<rparr>"

text \<open>
  \<open>config_supported\<close> is the conjunction of the four assertions of the writeback.
  \<open>one_tile_entry\<close> is the region entry read from \<open>vram_one_tile\<close>.
\<close>

definition config_supported :: "regs \<Rightarrow> bool" where
  "config_supported r \<longleftrightarrow>
     hscale (SCALER_CTL r) = 0 \<and> interlace (SCALER_CTL r) = 0
     \<and> (vscalefactor (SCALER_CTL r) = 0x401 \<or> vscalefactor (SCALER_CTL r) = 0x400
         \<or> vscalefactor (SCALER_CTL r) = 0x800)
     \<and> (fb_packmode (FB_W_CTRL r) = 1 \<or> fb_packmode (FB_W_CTRL r) = 6)"


section \<open>Properties\<close>

subsection \<open>Bits of the address map\<close>

lemma map_constants:
  "(VRAM_MASK - (VRAM_BANK_BIT * 2 - 1)) OR 3 = 3"
  "(VRAM_BANK_BIT - 1) AND NOT 3 = 0x3FFFFC"
  by (simp_all add: VRAM_MASK_def VRAM_SIZE_def VRAM_BANK_BIT_def)

lemma bank_div: "(x AND (0x400000::32 word)) div 0x400000 = drop_bit 22 x AND 1"
proof -
  have "(x AND (0x400000::32 word)) div 2 ^ 22 = drop_bit 22 (x AND 0x400000)"
    by (simp only: drop_bit_eq_div)
  also have "\<dots> = drop_bit 22 x AND 1"
    by (simp add: bit_eq_iff bit_simps)
  finally show ?thesis by simp
qed

lemma pvr_map32_alt:
  "pvr_map32 x = ((x AND 3) OR push_bit 1 (x AND 0x3FFFFC)) OR push_bit 2 (drop_bit 22 x AND 1)"
proof -
  have "pvr_map32 x =
      ((x AND 3) OR (x AND 0x3FFFFC) * 2) OR ((x AND 0x400000) div 0x400000) * 4"
    unfolding pvr_map32_def Let_def map_constants unfolding VRAM_BANK_BIT_def ..
  also have "(x AND 0x3FFFFC) * 2 = push_bit 1 (x AND 0x3FFFFC)"
    by (simp only: push_bit_eq_mult power_one_right)
  also have "((x AND 0x400000) div 0x400000) * 4 = push_bit 2 (drop_bit 22 x AND 1)"
    unfolding bank_div by (simp only: push_bit_eq_mult) simp
  finally show ?thesis .
qed

lemma bit_0x3FFFFC: "bit (0x3FFFFC :: 32 word) n \<longleftrightarrow> 2 \<le> n \<and> n < 22"
proof -
  have e: "(0x3FFFFC :: 32 word) = push_bit 2 (mask 20)"
    by (simp add: mask_eq_exp_minus_1)
  show ?thesis unfolding e by (auto simp add: bit_push_bit_iff bit_mask_iff)
qed

lemma bit_0x3: "bit (3 :: 32 word) n \<longleftrightarrow> n < 2"
proof -
  have e: "(3 :: 32 word) = mask 2"
    by (simp add: mask_eq_exp_minus_1)
  show ?thesis unfolding e by (auto simp add: bit_mask_iff)
qed

lemma bit_pvr_map32:
  "bit (pvr_map32 x) n \<longleftrightarrow>
     (n < 2 \<and> bit x n) \<or> (n = 2 \<and> bit x 22) \<or> (3 \<le> n \<and> n < 23 \<and> bit x (n - 1))"
  unfolding pvr_map32_alt bit_or_iff bit_and_iff bit_push_bit_iff bit_drop_bit_eq
    bit_0x3FFFFC bit_0x3 bit_1_iff
  by (auto dest: bit_imp_le_length)

lemma less_2p_iff_bits:
  assumes n: "n < 32"
  shows "a < (2 ^ n :: 32 word) \<longleftrightarrow> (\<forall>k\<ge>n. \<not> bit a k)"
proof -
  have "a < 2 ^ n \<longleftrightarrow> take_bit n a = a"
    using n mask_eq_iff_w2p[of n a] by (simp add: take_bit_eq_mask word_size)
  also have "\<dots> \<longleftrightarrow> (\<forall>k\<ge>n. \<not> bit a k)"
  proof
    assume "take_bit n a = a"
    then have "bit a k = bit (take_bit n a) k" for k by simp
    then show "\<forall>k\<ge>n. \<not> bit a k" unfolding bit_take_bit_iff by (metis not_le)
  next
    assume h: "\<forall>k\<ge>n. \<not> bit a k"
    have "bit (take_bit n a) k = bit a k" for k
      unfolding bit_take_bit_iff using h by (metis not_le)
    then show "take_bit n a = a" by (simp add: bit_eq_iff)
  qed
  finally show ?thesis .
qed

lemma less_VRAM_SIZE_iff_bits: "a < VRAM_SIZE \<longleftrightarrow> (\<forall>n\<ge>23. \<not> bit a n)"
  using less_2p_iff_bits[of 23 a] by (simp add: VRAM_SIZE_def)

lemma pvr_map32_inj:
  assumes "a < VRAM_SIZE" "b < VRAM_SIZE" "pvr_map32 a = pvr_map32 b"
  shows "a = b"
proof (rule bit_eqI)
  fix n :: nat
  have hi: "\<not> bit a n \<and> \<not> bit b n" if "23 \<le> n" for n
    using assms(1,2) that by (simp add: less_VRAM_SIZE_iff_bits)
  have eq: "bit (pvr_map32 a) m = bit (pvr_map32 b) m" for m
    using assms(3) by simp
  consider "n < 2" | "n = 22" | "2 \<le> n \<and> n < 22" | "23 \<le> n"
    by linarith
  then show "bit a n = bit b n"
  proof cases
    case 1 then show ?thesis using eq[of n] by (simp add: bit_pvr_map32)
  next
    case 2 then show ?thesis using eq[of 2] by (simp add: bit_pvr_map32)
  next
    case 3 then show ?thesis using eq[of "Suc n"] by (simp add: bit_pvr_map32)
  next
    case 4 then show ?thesis using hi by simp
  qed
qed

lemma pvr_map32_range: "pvr_map32 x < VRAM_SIZE"
  by (auto simp add: less_VRAM_SIZE_iff_bits bit_pvr_map32)

lemma pvr_map32_word_bank0:
  assumes "k < 2 ^ 20"
  shows "pvr_map32 (4 * k) = 8 * k"
proof -
  have kb: "\<not> bit k n" if "20 \<le> n" for n
    using assms less_2p_iff_bits[of 20 k] that by simp
  have x: "4 * k = push_bit 2 k" by (simp add: push_bit_eq_mult)
  have y: "8 * k = push_bit 3 k" by (simp add: push_bit_eq_mult)
  have "bit (pvr_map32 (push_bit 2 k)) n = bit (push_bit 3 k) n" for n
  proof -
    consider "n < 2" | "n = 2" | "3 \<le> n \<and> n < 23" | "23 \<le> n" by linarith
    then show ?thesis
      unfolding bit_pvr_map32 bit_push_bit_iff
      by cases (use kb[of 20] kb[of "n - 3"] in
          \<open>auto simp add: numeral_2_eq_2 numeral_3_eq_3 dest: bit_imp_le_length\<close>)
  qed
  then show ?thesis unfolding x y by (simp add: bit_eq_iff)
qed

lemma pvr_map32_word_bank1:
  assumes "k < 2 ^ 20"
  shows "pvr_map32 (VRAM_BANK_BIT + 4 * k) = 8 * k + 4"
proof -
  have kb: "\<not> bit k n" if "20 \<le> n" for n
    using assms less_2p_iff_bits[of 20 k] that by simp
  have "VRAM_BANK_BIT + 4 * k = push_bit 22 1 + push_bit 2 k"
    by (simp add: push_bit_eq_mult VRAM_BANK_BIT_def)
  also have "\<dots> = push_bit 22 1 OR push_bit 2 k"
    by (rule disjunctive_add, unfold bit_push_bit_iff bit_1_iff) (use kb in auto)
  finally have x: "VRAM_BANK_BIT + 4 * k = push_bit 22 1 OR push_bit 2 k" .
  have "8 * k + 4 = push_bit 3 k + push_bit 2 1"
    by (simp add: push_bit_eq_mult)
  also have "\<dots> = push_bit 3 k OR push_bit 2 1"
    by (rule disjunctive_add, unfold bit_push_bit_iff bit_1_iff) auto
  finally have y: "8 * k + 4 = push_bit 3 k OR push_bit 2 1" .
  have "bit (pvr_map32 (push_bit 22 1 OR push_bit 2 k)) n =
        bit (push_bit 3 k OR push_bit 2 1) n" for n
  proof -
    consider "n < 2" | "n = 2" | "3 \<le> n \<and> n < 23" | "23 \<le> n" by linarith
    then show ?thesis
      unfolding bit_pvr_map32 bit_or_iff bit_push_bit_iff bit_1_iff
      by cases (use kb[of 20] kb[of "n - 3"] in
          \<open>auto simp add: numeral_2_eq_2 numeral_3_eq_3 dest: bit_imp_le_length\<close>)
  qed
  then show ?thesis unfolding x y by (simp add: bit_eq_iff)
qed

subsection \<open>C2: the address map is one-to-one and interleaves the banks\<close>

text \<open>
  Claim C2 states that \<open>pvr_map32\<close>, on 4-byte-aligned offsets of one bank, is an
  involution and interleaves the two banks every 32 bits. The map doubles the word
  index, so applying it twice does not give the offset back: offset 4 goes to 8 and
  then to 16. What holds is that the map is one-to-one on the offsets below 8 MiB,
  stays below 8 MiB, and sends word \<open>k\<close> of bank 0 to byte \<open>8 * k\<close> and word \<open>k\<close> of
  bank 1 to byte \<open>8 * k + 4\<close>.
\<close>

theorem pvr_map32_one_to_one_interleaved:
  "(a < VRAM_SIZE \<and> b < VRAM_SIZE \<and> a \<noteq> b \<longrightarrow> pvr_map32 a \<noteq> pvr_map32 b)
   \<and> pvr_map32 a < VRAM_SIZE
   \<and> (k < 2 ^ 20 \<longrightarrow>
        pvr_map32 (4 * k) = 8 * k \<and> pvr_map32 (VRAM_BANK_BIT + 4 * k) = 8 * k + 4)"
  using pvr_map32_inj[of a b] pvr_map32_range[of a]
    pvr_map32_word_bank0[of k] pvr_map32_word_bank1[of k]
  by blast

theorem pvr_map32_one_to_one_interleaved_witness:
  "(4 :: 32 word) < VRAM_SIZE \<and> (8 :: 32 word) < VRAM_SIZE \<and> (4 :: 32 word) \<noteq> 8
   \<and> pvr_map32 4 \<noteq> pvr_map32 8 \<and> pvr_map32 4 < VRAM_SIZE
   \<and> (1 :: 32 word) < 2 ^ 20
   \<and> pvr_map32 (4 * 1) = 8 * 1 \<and> pvr_map32 (VRAM_BANK_BIT + 4 * 1) = 8 * 1 + 4"
  using pvr_map32_one_to_one_interleaved[of 4 8 1]
  by (simp add: VRAM_SIZE_def pvr_map32_alt)

theorem pvr_map32_not_involution:
  "(4 :: 32 word) AND 3 = 0 \<and> (4 :: 32 word) < VRAM_BANK_BIT
   \<and> pvr_map32 (pvr_map32 4) = 16 \<and> pvr_map32 (pvr_map32 4) \<noteq> 4"
  by (simp add: pvr_map32_alt VRAM_BANK_BIT_def)

subsection \<open>Helper facts on bits\<close>

lemma bit_0xF: "bit (0xF :: 'a::len word) n \<longleftrightarrow> n < 4 \<and> n < LENGTH('a)"
proof -
  have e: "(0xF :: 'a word) = mask 4"
    by (simp add: mask_eq_exp_minus_1)
  show ?thesis unfolding e by (auto simp add: bit_mask_iff)
qed

lemma bit_0xFF: "bit (0xFF :: 'a::len word) n \<longleftrightarrow> n < 8 \<and> n < LENGTH('a)"
proof -
  have e: "(0xFF :: 'a word) = mask 8"
    by (simp add: mask_eq_exp_minus_1)
  show ?thesis unfolding e by (auto simp add: bit_mask_iff)
qed

lemma bit_0x1F_0x3F:
  "bit (0x1F :: 16 word) n \<longleftrightarrow> n < 5"
  "bit (0x3F :: 16 word) n \<longleftrightarrow> n < 6"
proof -
  have e: "(0x1F :: 16 word) = mask 5" "(0x3F :: 16 word) = mask 6"
    by (simp_all add: mask_eq_exp_minus_1)
  show "bit (0x1F :: 16 word) n \<longleftrightarrow> n < 5" "bit (0x3F :: 16 word) n \<longleftrightarrow> n < 6"
    unfolding e by (auto simp add: bit_mask_iff)
qed

lemma int_bits_bounded:
  assumes "0 \<le> (v::int)" "v < 2 ^ k" "k \<le> n"
  shows "\<not> bit v n"
proof -
  have "take_bit k v = v"
    using assms by (simp add: take_bit_int_eq_self)
  then have "bit v n = bit (take_bit k v) n" by simp
  then show ?thesis using assms(3) by (simp add: bit_take_bit_iff)
qed

subsection \<open>C4: ARGB4444 unpacking\<close>

lemma bit_nibble_field:
  assumes "a + 4 \<le> 32" "b + 4 \<le> 16"
  shows "bit (push_bit a (drop_bit b (ucast (w :: 16 word) :: 32 word) AND 0xF)) n
         \<longleftrightarrow> a \<le> n \<and> n < a + 4 \<and> bit w (n - a + b)"
  unfolding bit_push_bit_iff bit_and_iff bit_drop_bit_eq bit_0xF bit_ucast_iff
  using assms by (auto simp add: add.commute)

lemma bit_ARGB4444_32:
  "bit (ARGB4444_32 w) n \<longleftrightarrow>
     (28 \<le> n \<and> n < 32 \<and> bit w (n - 28 + 12)) \<or> (4 \<le> n \<and> n < 8 \<and> bit w (n - 4))
     \<or> (12 \<le> n \<and> n < 16 \<and> bit w (n - 12 + 4)) \<or> (20 \<le> n \<and> n < 24 \<and> bit w (n - 20 + 8))"
  unfolding ARGB4444_32_def Let_def bit_or_iff
  using bit_nibble_field[of 28 12 w n] bit_nibble_field[of 4 0 w n]
    bit_nibble_field[of 12 4 w n] bit_nibble_field[of 20 8 w n]
  by simp

lemma bit_channel: "bit (drop_bit c (x :: 32 word) AND 0xFF) n \<longleftrightarrow> n < 8 \<and> bit x (c + n)"
  unfolding bit_and_iff bit_drop_bit_eq bit_0xFF
  by (auto simp add: add.commute dest: bit_imp_le_length)

lemma ARGB4444_32_channel:
  assumes "c < 4"
  shows "drop_bit (8 * c) (ARGB4444_32 w) AND 0xFF
         = push_bit 4 (drop_bit (4 * c) (ucast w) AND 0xF)"
proof (rule bit_eqI)
  fix n :: nat
  have r: "bit (push_bit 4 (drop_bit (4 * c) (ucast w :: 32 word) AND 0xF)) n
            \<longleftrightarrow> 4 \<le> n \<and> n < 8 \<and> bit w (n - 4 + 4 * c)"
    using bit_nibble_field[of 4 "4 * c" w n] assms by simp
  from assms consider "c = 0" | "c = 1" | "c = 2" | "c = 3"
    by linarith
  then show "bit (drop_bit (8 * c) (ARGB4444_32 w) AND 0xFF) n =
        bit (push_bit 4 (drop_bit (4 * c) (ucast w :: 32 word) AND 0xF)) n"
    unfolding r bit_channel bit_ARGB4444_32
    by cases auto
qed

text \<open>
  Claim C4 states that the ARGB4444 unpack duplicates each 4-bit nibble to 8 bits, so
  that nibble \<open>0xF\<close> gives channel \<open>0xFF\<close>. The macro only shifts: each nibble becomes
  the high half of its channel and the low half is zero, as for the 1555 and 565
  formats, so nibble \<open>0xF\<close> gives \<open>0xF0\<close>. Channel \<open>c\<close> (bits \<open>8c\<close> to \<open>8c + 7\<close> of the
  result) is sixteen times nibble \<open>c\<close> (bits \<open>4c\<close> to \<open>4c + 3\<close> of the texel).
\<close>

theorem ARGB4444_32_shifts_nibbles:
  "drop_bit 0 (ARGB4444_32 w) AND 0xFF = push_bit 4 (drop_bit 0 (ucast w) AND 0xF)
   \<and> drop_bit 8 (ARGB4444_32 w) AND 0xFF = push_bit 4 (drop_bit 4 (ucast w) AND 0xF)
   \<and> drop_bit 16 (ARGB4444_32 w) AND 0xFF = push_bit 4 (drop_bit 8 (ucast w) AND 0xF)
   \<and> drop_bit 24 (ARGB4444_32 w) AND 0xFF = push_bit 4 (drop_bit 12 (ucast w) AND 0xF)"
  using ARGB4444_32_channel[of 0 w] ARGB4444_32_channel[of 1 w]
    ARGB4444_32_channel[of 2 w] ARGB4444_32_channel[of 3 w]
  by simp

theorem ARGB4444_32_not_duplicated:
  "ARGB4444_32 0xFFFF = 0xF0F0F0F0
   \<and> drop_bit 0 (ARGB4444_32 0xFFFF) AND 0xFF = 0xF0
   \<and> drop_bit 0 (ARGB4444_32 0xFFFF) AND 0xFF \<noteq> 0xFF"
  by (simp add: ARGB4444_32_def)

subsection \<open>C5: RGB565 writeback\<close>

lemma uint_word_of_int_16: "0 \<le> v \<Longrightarrow> v < 2 ^ 16 \<Longrightarrow> uint (word_of_int v :: 16 word) = v"
  by (simp add: uint_word_of_int take_bit_int_eq_self flip: take_bit_eq_mod)

lemma rgb565_fields:
  fixes R G B :: int
  assumes "0 \<le> R" "R < 2 ^ 5" "0 \<le> G" "G < 2 ^ 6" "0 \<le> B" "B < 2 ^ 5"
  defines "p \<equiv> (word_of_int (push_bit 0 R OR push_bit 5 G OR push_bit 11 B) :: 16 word)"
  shows "uint (p AND 0x1F) = R"
    and "uint (drop_bit 5 p AND 0x3F) = G"
    and "uint (drop_bit 11 p AND 0x1F) = B"
proof -
  have bR: "n < 5" if "bit R n" for n
    using int_bits_bounded[OF assms(1,2), of n] that by force
  have bG: "n < 6" if "bit G n" for n
    using int_bits_bounded[OF assms(3,4), of n] that by force
  have bB: "n < 5" if "bit B n" for n
    using int_bits_bounded[OF assms(5,6), of n] that by force
  have bp: "bit p n \<longleftrightarrow>
      n < 16 \<and> (bit R n \<or> (5 \<le> n \<and> bit G (n - 5)) \<or> (11 \<le> n \<and> bit B (n - 11)))" for n
    unfolding p_def bit_word_of_int_iff bit_or_iff bit_push_bit_iff by auto
  have "p AND 0x1F = word_of_int R"
    apply (rule bit_eqI)
    unfolding bit_and_iff bp bit_0x1F_0x3F bit_word_of_int_iff
    by (auto dest: bR bG bB)
  then show "uint (p AND 0x1F) = R"
    using assms by (simp add: uint_word_of_int_16)
  have "drop_bit 5 p AND 0x3F = word_of_int G"
    apply (rule bit_eqI)
    unfolding bit_and_iff bit_drop_bit_eq bp bit_0x1F_0x3F bit_word_of_int_iff
    by (auto dest: bR bG bB)
  then show "uint (drop_bit 5 p AND 0x3F) = G"
    using assms by (simp add: uint_word_of_int_16)
  have "drop_bit 11 p AND 0x1F = word_of_int B"
    apply (rule bit_eqI)
    unfolding bit_and_iff bit_drop_bit_eq bp bit_0x1F_0x3F bit_word_of_int_iff
    by (auto dest: bR bG bB)
  then show "uint (drop_bit 11 p AND 0x1F) = B"
    using assms by (simp add: uint_word_of_int_16)
qed

lemma and_3_cases: "nat ((v::int) AND 3) \<in> {0, 1, 2, 3}"
proof -
  have "0 \<le> v AND 3"
    by (simp add: AND_lower and.commute)
  moreover have "v AND 3 \<le> 3"
    by (rule AND_upper2') simp_all
  ultimately have "nat (v AND 3) \<le> 3"
    by linarith
  then show ?thesis
    by (auto simp add: le_Suc_eq numeral_3_eq_3)
qed

lemma bayerBias_range:
  "8 \<le> bayerBias ! nat (y AND 3) ! nat (x AND 3) \<and> bayerBias ! nat (y AND 3) ! nat (x AND 3) \<le> 248"
  using and_3_cases[of y] and_3_cases[of x] by (auto simp add: bayerBias_def)

lemma quantize_range:
  assumes "0 \<le> (c::int)" "c \<le> 255" "8 \<le> T" "T \<le> 248" "0 < m"
  shows "0 \<le> (c * m + T) div 255 \<and> (c * m + T) div 255 \<le> m"
proof -
  have "c * m \<le> 255 * m"
    using assms by (simp add: mult_right_mono)
  then have "c * m + T < 255 * m + 255"
    using assms by linarith
  then have "c * m + T < 255 * (m + 1)"
    by (simp add: algebra_simps)
  then have "(c * m + T) div 255 < m + 1"
    by (simp add: div_less_iff_less_mult)
  moreover have "0 \<le> c * m + T"
    using assms by simp
  ultimately show ?thesis
    by (simp add: pos_imp_zdiv_nonneg_iff)
qed

lemma pixel565_components:
  fixes x y :: int and r8 g8 b8 :: "8 word"
  defines "T \<equiv> bayerBias ! nat (y AND 3) ! nat (x AND 3)"
  defines "p \<equiv> (word_of_int (pixel565 x y r8 g8 b8) :: 16 word)"
  shows "uint (p AND 0x1F) = (uint r8 * 31 + T) div 255
    \<and> uint (drop_bit 5 p AND 0x3F) = (uint g8 * 63 + T) div 255
    \<and> uint (drop_bit 11 p AND 0x1F) = (uint b8 * 31 + T) div 255
    \<and> (uint r8 * 31 + T) div 255 \<in> {0..31}
    \<and> (uint g8 * 63 + T) div 255 \<in> {0..63}
    \<and> (uint b8 * 31 + T) div 255 \<in> {0..31}"
proof -
  have T: "8 \<le> T" "T \<le> 248"
    using bayerBias_range[of y x] by (simp_all add: T_def)
  have u: "0 \<le> uint c" "uint c \<le> 255" for c :: "8 word"
    using uint_lt2p[of c] by simp_all
  note R = quantize_range[OF u[of r8] T, of 31, simplified]
  note G = quantize_range[OF u[of g8] T, of 63, simplified]
  note B = quantize_range[OF u[of b8] T, of 31, simplified]
  have px: "pixel565 x y r8 g8 b8 =
      push_bit 0 ((uint r8 * 31 + T) div 255) OR push_bit 5 ((uint g8 * 63 + T) div 255)
      OR push_bit 11 ((uint b8 * 31 + T) div 255)"
    using R G B unfolding pixel565_def Let_def clamp_component_def T_def[symmetric] by simp
  have "uint (p AND 0x1F) = (uint r8 * 31 + T) div 255"
    and "uint (drop_bit 5 p AND 0x3F) = (uint g8 * 63 + T) div 255"
    and "uint (drop_bit 11 p AND 0x1F) = (uint b8 * 31 + T) div 255"
    unfolding p_def px
    using R G B
      rgb565_fields[of "(uint r8 * 31 + T) div 255" "(uint g8 * 63 + T) div 255"
        "(uint b8 * 31 + T) div 255"]
    by simp_all
  then show ?thesis
    using R G B by simp
qed

text \<open>
  Claim C5: for every pixel position and every 8-bit colour of the accumulator, the
  RGB565 writeback stores the pixel whose red, green and blue fields are
  \<open>(r8 * 31 + T) div 255\<close>, \<open>(g8 * 63 + T) div 255\<close> and \<open>(b8 * 31 + T) div 255\<close>, where \<open>T\<close>
  is the entry \<open>(y AND 3, x AND 3)\<close> of the fixed matrix, and the three fields lie in
  \<open>[0, 31]\<close>, \<open>[0, 63]\<close> and \<open>[0, 31]\<close>.
\<close>

theorem rgb565_writeback_dither:
  "(let T = bayerBias ! nat (int y AND 3) ! nat (int x AND 3);
        r8 = src_buf src; g8 = src_buf (src + 1); b8 = src_buf (src + 2);
        p = (word_of_int (pixel565 (int x) (int y) r8 g8 b8) :: 16 word)
    in write_pixel 1 src_buf x y dst src vram = pvr_write_area1_16 vram dst p
       \<and> bayerBias = [[8, 136, 40, 168], [200, 72, 232, 104], [56, 184, 24, 152], [248, 120, 216, 88]]
       \<and> uint (p AND 0x1F) = (uint r8 * 31 + T) div 255
       \<and> uint (drop_bit 5 p AND 0x3F) = (uint g8 * 63 + T) div 255
       \<and> uint (drop_bit 11 p AND 0x1F) = (uint b8 * 31 + T) div 255
       \<and> uint (p AND 0x1F) \<in> {0..31}
       \<and> uint (drop_bit 5 p AND 0x3F) \<in> {0..63}
       \<and> uint (drop_bit 11 p AND 0x1F) \<in> {0..31})"
  unfolding Let_def
  using pixel565_components[of "int x" "int y" "src_buf src" "src_buf (src + 1)" "src_buf (src + 2)"]
  by (simp add: write_pixel_def bayerBias_def)

subsection \<open>C9: VRAM stores and the end of the array\<close>

lemma pvr_map32_low_bits: "pvr_map32 a AND 3 = a AND 3"
  by (rule bit_eqI, unfold bit_and_iff bit_pvr_map32 bit_0x3) auto

lemma unat_and_3: "unat (w AND 3 :: 32 word) = unat w mod 4"
proof -
  have "w AND 3 = take_bit 2 w"
    by (simp add: take_bit_eq_mask mask_eq_exp_minus_1)
  also have "\<dots> = w mod 4"
    by (simp add: take_bit_eq_mod)
  finally show ?thesis
    by (simp add: unat_mod)
qed

lemma unat_and_1: "unat (w AND 1 :: 32 word) = unat w mod 2"
proof -
  have "w AND 1 = take_bit 1 w"
    by (simp add: take_bit_eq_mask mask_eq_exp_minus_1)
  also have "\<dots> = w mod 2"
    by (simp add: take_bit_eq_mod)
  finally show ?thesis
    by (simp add: unat_mod)
qed

lemma unat_pvr_map32_mod4: "unat (pvr_map32 a) mod 4 = unat a mod 4"
  using pvr_map32_low_bits[of a] unat_and_3[of "pvr_map32 a"] unat_and_3[of a] by simp

lemma unat_pvr_map32_less: "unat (pvr_map32 a) < 8388608"
  using pvr_map32_range[of a] by (simp add: VRAM_SIZE_def word_less_nat_alt)

lemma store16_in_array:
  assumes "a AND 1 = 0"
  shows "unat (pvr_map32 a) + 2 \<le> unat VRAM_SIZE"
proof -
  have "unat a mod 2 = 0"
    using assms unat_and_1[of a] by simp
  then have "unat a mod 4 = 0 \<or> unat a mod 4 = 2"
    by presburger
  then have "unat (pvr_map32 a) mod 4 = 0 \<or> unat (pvr_map32 a) mod 4 = 2"
    by (simp add: unat_pvr_map32_mod4)
  then show ?thesis
    using unat_pvr_map32_less[of a] by (simp add: VRAM_SIZE_def) presburger
qed

lemma store32_in_array:
  assumes "a AND 3 = 0"
  shows "unat (pvr_map32 a) + 4 \<le> unat VRAM_SIZE"
proof -
  have "unat a mod 4 = 0"
    using assms unat_and_3[of a] by simp
  then have "unat (pvr_map32 a) mod 4 = 0"
    by (simp add: unat_pvr_map32_mod4)
  then show ?thesis
    using unat_pvr_map32_less[of a] by (simp add: VRAM_SIZE_def) presburger
qed

lemma regs_edge_values:
  "REGION_BASE regs_edge = 0" "FPU_PARAM_CFG regs_edge = 0" "ISP_FEED_CFG regs_edge = 0"
  "SCALER_CTL regs_edge = 0x400" "FB_W_CTRL regs_edge = 1" "FB_W_SOF1 regs_edge = 0x7FFFFF"
  "FB_W_LINESTRIDE regs_edge = 0"
  by (simp_all add: regs_edge_def PvrReg_def REGION_BASE_def FPU_PARAM_CFG_def ISP_FEED_CFG_def
      SCALER_CTL_def FB_W_CTRL_def FB_W_SOF1_def FB_W_LINESTRIDE_def
      REGION_BASE_addr_def FPU_PARAM_CFG_addr_def ISP_FEED_CFG_addr_def SCALER_CTL_addr_def
      FB_W_CTRL_addr_def FB_W_SOF1_addr_def FB_W_LINESTRIDE_addr_def pvr_RegMask_def pvr_RegSize_def)

lemma vri_one_tile:
  "vri vram_one_tile 0 = 0x80000000" "vri vram_one_tile 4 = 0x80000000"
  "vri vram_one_tile 8 = 0x80000000" "vri vram_one_tile 12 = 0x80000000"
  "vri vram_one_tile 16 = 0x80000000"
  by (simp_all add: vri_def vram_one_tile_def pvr_map32_alt)

lemma Read_one_tile:
  "ReadRegionArrayEntry regs_edge vram_one_tile 0 =
    (\<lparr> control = 0x80000000, opaque = 0x80000000, opaque_mod = 0x80000000, trans = 0x80000000,
       trans_mod = 0x80000000, puncht = 0x80000000 \<rparr>, 20)"
  by (simp add: ReadRegionArrayEntry_def vri_one_tile regs_edge_values
      region_header_type_def feed_pre_sort_def bitfield_def set_bitfield_def)

lemma tile_passes_one_tile_white:
  "tile_passes white_tile regs_edge vram_one_tile
     \<lparr> control = 0x80000000, opaque = 0x80000000, opaque_mod = 0x80000000, trans = 0x80000000,
       trans_mod = 0x80000000, puncht = 0x80000000 \<rparr> () = Some ()"
  by (simp add: tile_passes_def tile_opaque_def tile_punchthrough_def tile_translucent_def
      empty_list_def bitfield_def)

lemma pixel565_white: "(word_of_int (pixel565 0 0 0xFF 0xFF 0xFF) :: 16 word) = 0xFFFF"
  by (simp add: pixel565_def bayerBias_def clamp_component_def)

lemma white_bytes:
  "(ucast (0xFFFF :: 16 word) :: 8 word) = 0xFF" "(65535 :: 8 word) = 0xFF"
  by simp_all

lemma GetColorOutputBuffer_white: "GetColorOutputBuffer white_tile t = (\<lambda>i. 0xFF)"
  by (simp add: white_tile_def)

lemma writeout_one_tile:
  "tile_writeout regs_edge
     \<lparr> control = 0x80000000, opaque = 0x80000000, opaque_mod = 0x80000000, trans = 0x80000000,
       trans_mod = 0x80000000, puncht = 0x80000000 \<rparr> (\<lambda>i. 0xFF) vram_one_tile
   = Inl (WriteOutOfBounds, vram_one_tile(8388607 := 0xFF, 8388608 := 0xFF))"
  by (simp add: tile_writeout_def c_assert_def regs_edge_values hscale_def interlace_def fieldselect_def
      vscalefactor_def fb_packmode_def stride_def tilex_def tiley_def bitfield_def
      write_pixel_def pixel565_white pvr_write_area1_16_def pvr_map32_alt VRAM_SIZE_def white_bytes)

text \<open>
  The first byte of a store is always inside the array, because \<open>pvr_map32\<close> drops the
  address bits from bit 23 up. For an address that is a multiple of the store width,
  the whole store is inside the array and nothing beyond it changes.
\<close>

lemma aligned_vram_stores_in_array:
  "unat (pvr_map32 addr) < unat VRAM_SIZE
   \<and> (addr AND 1 = 0 \<longrightarrow>
        (\<exists>vram'. pvr_write_area1_16 vram addr d16 = Inr vram'
           \<and> (\<forall>i. unat VRAM_SIZE \<le> i \<longrightarrow> vram' i = vram i)))
   \<and> (addr AND 3 = 0 \<longrightarrow>
        (\<exists>vram'. pvr_write_area1_32 vram addr d32 = Inr vram'
           \<and> (\<forall>i. unat VRAM_SIZE \<le> i \<longrightarrow> vram' i = vram i)))"
  using store16_in_array[of addr] store32_in_array[of addr] unat_pvr_map32_less[of addr]
  by (auto simp add: pvr_write_area1_16_def pvr_write_area1_32_def Let_def VRAM_SIZE_def)

lemma aligned_vram_stores_in_array_example:
  "(0x7FFFFC :: 32 word) AND 1 = 0 \<and> (0x7FFFFC :: 32 word) AND 3 = 0
   \<and> unat (pvr_map32 0x7FFFFC) < unat VRAM_SIZE
   \<and> (\<exists>vram'. pvr_write_area1_16 vram_ones 0x7FFFFC 0 = Inr vram'
          \<and> (\<forall>i. unat VRAM_SIZE \<le> i \<longrightarrow> vram' i = vram_ones i))
   \<and> (\<exists>vram'. pvr_write_area1_32 vram_ones 0x7FFFFC 0 = Inr vram'
          \<and> (\<forall>i. unat VRAM_SIZE \<le> i \<longrightarrow> vram' i = vram_ones i))"
  using aligned_vram_stores_in_array[of "0x7FFFFC" vram_ones 0 0]
  by simp

text \<open>
  Claim C9: for every VRAM write issued during \<^verbatim>\<open>render\<close> (the 16-bit or 32-bit frame
  buffer writeback), an address that would map outside the 8 MiB VRAM is masked into
  range before the store, so that no write lands outside the 8 MiB byte array.
  The code does not keep this. Both store functions compute the masked address
  \<open>vaddr\<close> and then store through \<open>pvr_map32 addr\<close>, which confines the first byte of
  the store and not its width: the 16-bit store at address \<open>0x7FFFFF\<close> starts at the
  last byte of the array and writes the byte at index \<open>0x800000\<close>, the first one beyond
  it, and the 32-bit store at \<open>0x7FFFFD\<close> writes that byte too. \<^verbatim>\<open>RenderCORE\<close> takes the
  frame buffer start address from the register \<^verbatim>\<open>FB_W_SOF1\<close> as it is, so with
  \<open>0x7FFFFF\<close> there, the RGB565 pack mode and one white tile at (0, 0), the first pixel
  written by the frame changes the byte beyond the array from \<open>0\<close> to \<open>0xFF\<close>.
\<close>

theorem unaligned_store_leaves_array:
  "unat (pvr_map32 0x7FFFFF) + 1 = unat VRAM_SIZE
   \<and> pvr_write_area1_16 vram_ones 0x7FFFFF 0
       = Inl (WriteOutOfBounds, vram_ones(8388607 := 0, 8388608 := 0))
   \<and> pvr_write_area1_32 vram_ones 0x7FFFFD 0
       = Inl (WriteOutOfBounds, vram_ones(8388605 := 0, 8388606 := 0, 8388607 := 0, 8388608 := 0))
   \<and> vram_ones 8388608 = 0xFF
   \<and> RenderCORE white_tile regs_edge (vram_one_tile, ())
       = Some (Inl (WriteOutOfBounds, vram_one_tile(8388607 := 0xFF, 8388608 := 0xFF), ()))
   \<and> vram_one_tile 8388608 = 0"
proof -
  have "RenderCORE white_tile regs_edge (vram_one_tile, ())
       = Some (Inl (WriteOutOfBounds, vram_one_tile(8388607 := 0xFF, 8388608 := 0xFF), ()))"
    unfolding RenderCORE_def regs_edge_values
    by (subst region_loop.simps)
       (simp add: Read_one_tile RenderTile_def tile_passes_one_tile_white writeout_one_tile
          no_writeout_def bitfield_def GetColorOutputBuffer_white)
  then show ?thesis
    by (simp add: pvr_write_area1_16_def pvr_write_area1_32_def pvr_map32_alt VRAM_SIZE_def
        vram_ones_def vram_one_tile_def)
qed

subsection \<open>C3: triangle strips\<close>

lemma parity_xor: "i + ((i::nat) mod 2 XOR Suc 0) = Suc i - i mod 2"
proof -
  have "i mod 2 = 0 \<or> i mod 2 = 1" by presburger
  then show ?thesis by auto
qed

lemma mask_test: "(m AND push_bit n 1 \<noteq> (0::32 word)) \<longleftrightarrow> bit m n"
  by (simp add: bit_iff_and_push_bit_not_eq_0)

lemma strip_loop_fold:
  "strip_loop api vram mode obj params vtx rect i t =
     fold (\<lambda>i. RenderTriangle api vram mode params
              (CoreTagFromDesc (CacheBypass (params_isp api params)) (shadow obj) (skip obj)
                 (param_offs_in_words obj) (of_nat i))
              (vtx (i + i mod 2)) (vtx (i + 1 - i mod 2)) (vtx (i + 2)) None rect)
       (filter (\<lambda>i. bit (strip_mask obj) (5 - i)) [i..<6]) t"
proof (induction api vram mode obj params vtx rect i t rule: strip_loop.induct)
  case (1 api vram mode obj params vtx rect i t)
  show ?case
  proof (cases "i < 6")
    case True
    then have u: "[i..<6] = i # [i + 1..<6]"
      by (simp add: upt_conv_Cons)
    show ?thesis
      apply (subst strip_loop.simps)
      apply (simp only: True if_True "1.IH"[OF True] u)
      unfolding mask_test Let_def
      apply (simp add: parity_xor and_one_eq del: strip_loop.simps)
      done
  next
    case False
    then show ?thesis by simp
  qed
qed

lemma tag_offset_CoreTagFromDesc: "tag_offset (CoreTagFromDesc cb sh sk po x) = take_bit 3 x"
  apply (rule bit_eqI)
  unfolding tag_offset_def CoreTagFromDesc_def bitfield_def set_bitfield_def Let_def
    bit_take_bit_iff bit_drop_bit_eq bit_or_iff bit_and_iff bit_not_iff bit_push_bit_iff bit_mask_iff
  apply auto
  done

lemma tag_offset_small: "i < 8 \<Longrightarrow> tag_offset (CoreTagFromDesc cb sh sk po (of_nat i)) = of_nat i"
  unfolding tag_offset_CoreTagFromDesc
  by (simp add: take_bit_of_nat take_bit_nat_eq_self)


text \<open>
  Claim C3 states that triangle \<open>i\<close> of a strip is emitted when mask bit \<open>i\<close> is set.
  The loop tests \<^verbatim>\<open>mask & (1 << (5 - i))\<close>: triangle \<open>i\<close> is selected by bit \<open>5 - i\<close> of the
  6-bit mask field, the most significant bit standing for the first triangle. With
  only bit 0 of the mask set, the strip draws the triangle at position 5 (vertices 6,
  5, 7, tag offset 5) and not the triangle at position 0. The rest of the claim holds:
  the triangles are drawn in increasing order of \<open>i\<close>, triangle \<open>i\<close> takes the vertices
  \<open>i + parity\<close>, \<open>i + 1 - parity\<close>, \<open>i + 2\<close> with \<open>parity = i mod 2\<close>, no fourth vertex,
  and its tag carries the tag offset \<open>i\<close>.
\<close>

theorem RenderTriangleStrip_triangles:
  "RenderTriangleStrip api r vram mode obj rect t =
     (case decode_pvr_vertices api vram ((PARAM_BASE r AND 0xF00000) + param_offs_in_words obj * 4)
             (skip obj) (two_volumes_of r obj) 8 of
        (params, vtx, next) \<Rightarrow>
          fold (\<lambda>i. RenderTriangle api vram mode params
                   (CoreTagFromDesc (CacheBypass (params_isp api params)) (shadow obj) (skip obj)
                      (param_offs_in_words obj) (of_nat i))
                   (vtx (i + i mod 2)) (vtx (i + 1 - i mod 2)) (vtx (i + 2)) None rect)
            (filter (\<lambda>i. bit (strip_mask obj) (5 - i)) [0..<6]) t)
   \<and> (\<forall>i<6. tag_offset (CoreTagFromDesc cb sh sk po (of_nat i)) = of_nat i)"
  by (simp add: RenderTriangleStrip_def Let_def strip_loop_fold tag_offset_small
      split: prod.splits del: strip_loop.simps)

lemma upt_0_6: "[0..<6] = [0, 1, 2, 3, 4, 5]"
  by (simp add: upt_rec)

theorem RenderTriangleStrip_triangles_witness:
  "(5::nat) < 6 \<and> tag_offset (CoreTagFromDesc 0 0 0 0 (of_nat 5)) = 5
   \<and> RenderTriangleStrip (recording index_tile) regs_zero vram_ones RM_OPAQUE 0x42000000 zero_rect ((), [])
       = ((), [RasterizeTriangle RM_OPAQUE () 0 0 1 2 None zero_rect,
               RasterizeTriangle RM_OPAQUE () 5 6 5 7 None zero_rect])"
  using RenderTriangleStrip_triangles[where api = "recording index_tile" and r = regs_zero
      and vram = vram_ones and mode = RM_OPAQUE and obj = "0x42000000" and rect = zero_rect
      and t = "((), [])" and cb = 0 and sh = 0 and sk = 0 and po = 0]
  by (simp add: upt_0_6 recording_def index_tile_def strip_mask_def bitfield_def RenderTriangle_def
      CoreTagFromDesc_def set_bitfield_def mask_eq_exp_minus_1 tag_offset_def shadow_def skip_def param_offs_in_words_def CacheBypass_def)

theorem strip_mask_bit_order:
  "bit (strip_mask 0x2000000) 0
   \<and> RenderTriangleStrip (recording index_tile) regs_zero vram_ones RM_OPAQUE 0x2000000 zero_rect ((), [])
       = ((), [RasterizeTriangle RM_OPAQUE () 5 6 5 7 None zero_rect])"
  by (simp add: RenderTriangleStrip_def  recording_def index_tile_def strip_mask_def bitfield_def RenderTriangle_def
      CoreTagFromDesc_def set_bitfield_def mask_eq_exp_minus_1 tag_offset_def shadow_def skip_def param_offs_in_words_def CacheBypass_def)

subsection \<open>C6: the twiddle tables\<close>

text \<open>
  The loop is unfolded by hand in this part.
\<close>

declare twiddle_loop.simps [simp del]

lemma twiddle_loop_both:
  assumes "x_sz \<noteq> 0" "y_sz \<noteq> 0"
  shows "twiddle_loop x y x_sz y_sz sh rv =
    twiddle_loop (drop_bit 1 x) (drop_bit 1 y) (drop_bit 1 x_sz) (drop_bit 1 y_sz) (sh + 1 + 1)
      ((rv OR push_bit (unat sh) (y AND 1)) OR push_bit (unat (sh + 1)) (x AND 1))"
  using assms by (subst twiddle_loop.simps) (simp add: Let_def)

lemma twiddle_loop_only_y:
  assumes "y_sz \<noteq> 0"
  shows "twiddle_loop x y 0 y_sz sh rv =
    twiddle_loop x (drop_bit 1 y) 0 (drop_bit 1 y_sz) (sh + 1) (rv OR push_bit (unat sh) (y AND 1))"
  using assms by (subst twiddle_loop.simps) (simp add: Let_def)

lemma twiddle_loop_only_x:
  assumes "x_sz \<noteq> 0"
  shows "twiddle_loop x y x_sz 0 sh rv =
    twiddle_loop (drop_bit 1 x) y (drop_bit 1 x_sz) 0 (sh + 1) (rv OR push_bit (unat sh) (x AND 1))"
  using assms by (subst twiddle_loop.simps) (simp add: Let_def)

lemma twiddle_loop_done: "twiddle_loop x y 0 0 sh rv = rv"
  by (subst twiddle_loop.simps) simp

lemma unat_half: "unat (drop_bit 1 v) = unat v div 2" for v :: "32 word"
  by (simp add: drop_bit_eq_div unat_div)

lemma unat_half_less: "v \<noteq> 0 \<Longrightarrow> unat (drop_bit 1 v) < unat v" for v :: "32 word"
  unfolding unat_half using unat_gt_0[of v] by linarith

lemma twiddle_loop_acc:
  "twiddle_loop x y x_sz y_sz sh rv = rv OR twiddle_loop x y x_sz y_sz sh 0"
proof (induction "unat x_sz + unat y_sz" arbitrary: x y x_sz y_sz sh rv rule: less_induct)
  case less
  consider "x_sz \<noteq> 0" "y_sz \<noteq> 0" | "x_sz = 0" "y_sz \<noteq> 0" | "x_sz \<noteq> 0" "y_sz = 0"
    | "x_sz = 0" "y_sz = 0" by blast
  then show ?case
  proof cases
    case 1
    have m: "unat (drop_bit 1 x_sz) + unat (drop_bit 1 y_sz) < unat x_sz + unat y_sz"
      using unat_half_less[OF 1(1)] unat_half_less[OF 1(2)] by linarith
    show ?thesis
      unfolding twiddle_loop_both[OF 1]
      by (subst less[OF m], subst (2) less[OF m]) (simp add: or.assoc)
  next
    case 2
    have m: "unat (0::32 word) + unat (drop_bit 1 y_sz) < unat x_sz + unat y_sz"
      using unat_half_less[OF 2(2)] by simp
    show ?thesis
      unfolding 2(1) twiddle_loop_only_y[OF 2(2)]
      by (subst less[OF m], subst (2) less[OF m]) (simp add: or.assoc)
  next
    case 3
    have m: "unat (drop_bit 1 x_sz) + unat (0::32 word) < unat x_sz + unat y_sz"
      using unat_half_less[OF 3(1)] by simp
    show ?thesis
      unfolding 3(2) twiddle_loop_only_x[OF 3(1)]
      by (subst less[OF m], subst (2) less[OF m]) (simp add: or.assoc)
  next
    case 4
    then show ?thesis by (simp add: twiddle_loop_done)
  qed
qed


lemma unat_succ: "unat sh + 1 < 2 ^ 32 \<Longrightarrow> unat (sh + 1) = unat sh + 1" for sh :: "32 word"
  by (simp add: unat_word_ariths)

lemma unat_0_plus_1: "unat (0 + 1 :: 32 word) = 1"
  by simp
lemma unat_0_plus_2: "unat (0 + 1 + 1 :: 32 word) = 2"
  by simp

lemma twiddle_loop_shift:
  assumes "unat sh + unat x_sz + unat y_sz < 2 ^ 32"
  shows "twiddle_loop x y x_sz y_sz sh 0 = push_bit (unat sh) (twiddle_loop x y x_sz y_sz 0 0)"
  using assms
proof (induction "unat x_sz + unat y_sz" arbitrary: x y x_sz y_sz sh rule: less_induct)
  case less
  consider "x_sz \<noteq> 0" "y_sz \<noteq> 0" | "x_sz = 0" "y_sz \<noteq> 0" | "x_sz \<noteq> 0" "y_sz = 0"
    | "x_sz = 0" "y_sz = 0" by blast
  then show ?case
  proof cases
    case 1
    let ?x = "drop_bit 1 x" and ?y = "drop_bit 1 y" and ?xs = "drop_bit 1 x_sz" and ?ys = "drop_bit 1 y_sz"
    have lx: "unat ?xs < unat x_sz" and ly: "unat ?ys < unat y_sz"
      using unat_half_less[OF 1(1)] unat_half_less[OF 1(2)] by auto
    have m: "unat ?xs + unat ?ys < unat x_sz + unat y_sz"
      using lx ly by linarith
    have s1: "unat (sh + 1) = unat sh + 1" and s2: "unat (sh + 1 + 1) = unat sh + 2"
      using less.prems lx ly by (simp_all add: unat_word_ariths)
    have b1: "unat (sh + 1 + 1) + unat ?xs + unat ?ys < 2 ^ 32"
      unfolding s2 using less.prems lx ly by linarith
    have b2: "unat (0 + 1 + 1 :: 32 word) + unat ?xs + unat ?ys < 2 ^ 32"
      using less.prems lx ly by simp
    have L: "twiddle_loop x y x_sz y_sz sh 0 =
        (push_bit (unat sh) (y AND 1) OR push_bit (unat sh + 1) (x AND 1))
        OR push_bit (unat sh + 2) (twiddle_loop ?x ?y ?xs ?ys 0 0)"
      unfolding twiddle_loop_both[OF 1]
      by (subst twiddle_loop_acc, subst less.hyps[OF m b1]) (simp only: s1 s2 or.left_neutral)
    have R: "twiddle_loop x y x_sz y_sz 0 0 =
        ((y AND 1) OR push_bit 1 (x AND 1)) OR push_bit 2 (twiddle_loop ?x ?y ?xs ?ys 0 0)"
      unfolding twiddle_loop_both[OF 1]
      by (subst twiddle_loop_acc, subst less.hyps[OF m b2]) (simp only: unat_0_plus_1 unat_0_plus_2 unsigned_0 push_bit_0_id id_apply or.left_neutral)
    show ?thesis
      unfolding L R by (simp only: push_bit_or push_bit_push_bit)
  next
    case 2
    let ?y = "drop_bit 1 y" and ?ys = "drop_bit 1 y_sz"
    have ly: "unat ?ys < unat y_sz"
      using unat_half_less[OF 2(2)] by auto
    have m: "unat (0::32 word) + unat ?ys < unat x_sz + unat y_sz"
      using ly by simp
    have s1: "unat (sh + 1) = unat sh + 1"
      using less.prems ly by (simp_all add: unat_word_ariths)
    have b1: "unat (sh + 1) + unat (0::32 word) + unat ?ys < 2 ^ 32"
      unfolding s1 using less.prems ly by simp
    have b2: "unat (0 + 1 :: 32 word) + unat (0::32 word) + unat ?ys < 2 ^ 32"
      using less.prems ly by simp
    have L: "twiddle_loop x y x_sz y_sz sh 0 =
        push_bit (unat sh) (y AND 1) OR push_bit (unat sh + 1) (twiddle_loop x ?y 0 ?ys 0 0)"
      unfolding 2(1) twiddle_loop_only_y[OF 2(2)]
      by (subst twiddle_loop_acc, subst less.hyps[OF m b1]) (simp only: s1 or.left_neutral)
    have R: "twiddle_loop x y x_sz y_sz 0 0 =
        (y AND 1) OR push_bit 1 (twiddle_loop x ?y 0 ?ys 0 0)"
      unfolding 2(1) twiddle_loop_only_y[OF 2(2)]
      by (subst twiddle_loop_acc, subst less.hyps[OF m b2]) (simp only: unat_0_plus_1 unat_0_plus_2 unsigned_0 push_bit_0_id id_apply or.left_neutral)
    show ?thesis
      unfolding L R by (simp only: push_bit_or push_bit_push_bit)
  next
    case 3
    let ?x = "drop_bit 1 x" and ?xs = "drop_bit 1 x_sz"
    have lx: "unat ?xs < unat x_sz"
      using unat_half_less[OF 3(1)] by auto
    have m: "unat ?xs + unat (0::32 word) < unat x_sz + unat y_sz"
      using lx by simp
    have s1: "unat (sh + 1) = unat sh + 1"
      using less.prems lx by (simp_all add: unat_word_ariths)
    have b1: "unat (sh + 1) + unat ?xs + unat (0::32 word) < 2 ^ 32"
      unfolding s1 using less.prems lx by simp
    have b2: "unat (0 + 1 :: 32 word) + unat ?xs + unat (0::32 word) < 2 ^ 32"
      using less.prems lx by simp
    have L: "twiddle_loop x y x_sz y_sz sh 0 =
        push_bit (unat sh) (x AND 1) OR push_bit (unat sh + 1) (twiddle_loop ?x y ?xs 0 0 0)"
      unfolding 3(2) twiddle_loop_only_x[OF 3(1)]
      by (subst twiddle_loop_acc, subst less.hyps[OF m b1]) (simp only: s1 or.left_neutral)
    have R: "twiddle_loop x y x_sz y_sz 0 0 =
        (x AND 1) OR push_bit 1 (twiddle_loop ?x y ?xs 0 0 0)"
      unfolding 3(2) twiddle_loop_only_x[OF 3(1)]
      by (subst twiddle_loop_acc, subst less.hyps[OF m b2]) (simp only: unat_0_plus_1 unat_0_plus_2 unsigned_0 push_bit_0_id id_apply or.left_neutral)
    show ?thesis
      unfolding L R by (simp only: push_bit_or push_bit_push_bit)
  next
    case 4
    then show ?thesis by (simp add: twiddle_loop_done)
  qed
qed


lemma twiddle_step_both:
  assumes "x_sz \<noteq> 0" "y_sz \<noteq> 0" "unat x_sz + unat y_sz < 2 ^ 32"
  shows "twiddle_loop x y x_sz y_sz 0 0 =
    ((y AND 1) OR push_bit 1 (x AND 1))
    OR push_bit 2 (twiddle_loop (drop_bit 1 x) (drop_bit 1 y) (drop_bit 1 x_sz) (drop_bit 1 y_sz) 0 0)"
proof -
  have b: "unat (0 + 1 + 1 :: 32 word) + unat (drop_bit 1 x_sz) + unat (drop_bit 1 y_sz) < 2 ^ 32"
    using assms(3) unat_half_less[OF assms(1)] unat_half_less[OF assms(2)] by simp
  show ?thesis
    unfolding twiddle_loop_both[OF assms(1,2)]
    by (subst twiddle_loop_acc, subst twiddle_loop_shift[OF b])
       (simp only: unat_0_plus_1 unat_0_plus_2 unsigned_0 push_bit_0_id id_apply or.left_neutral)
qed

lemma bits_to_sum:
  "((b0 AND 1) OR push_bit 1 (b1 AND 1)) OR push_bit 2 t = (b0 AND 1) + 2 * (b1 AND 1) + 4 * t"
  for b0 b1 t :: "32 word"
proof -
  have a: "(b0 AND 1) + push_bit 1 (b1 AND 1) = (b0 AND 1) OR push_bit 1 (b1 AND 1)"
    by (rule disjunctive_add, unfold bit_and_iff bit_push_bit_iff bit_1_iff) auto
  have b: "((b0 AND 1) OR push_bit 1 (b1 AND 1)) + push_bit 2 t
      = ((b0 AND 1) OR push_bit 1 (b1 AND 1)) OR push_bit 2 t"
    by (rule disjunctive_add, unfold bit_or_iff bit_and_iff bit_push_bit_iff bit_1_iff) auto
  have "push_bit 1 (b1 AND 1) = 2 * (b1 AND 1)" "push_bit 2 t = 4 * t"
    by (simp_all only: push_bit_eq_mult mult.commute power_one_right) simp
  then show ?thesis
    using a b by metis
qed

lemma twiddle_zero: "twiddle_loop 0 0 x_sz y_sz sh 0 = 0"
proof (induction "unat x_sz + unat y_sz" arbitrary: x_sz y_sz sh rule: less_induct)
  case less
  consider "x_sz \<noteq> 0" "y_sz \<noteq> 0" | "x_sz = 0" "y_sz \<noteq> 0" | "x_sz \<noteq> 0" "y_sz = 0"
    | "x_sz = 0" "y_sz = 0" by blast
  then show ?case
  proof cases
    case 1
    have m: "unat (drop_bit 1 x_sz) + unat (drop_bit 1 y_sz) < unat x_sz + unat y_sz"
      using unat_half_less[OF 1(1)] unat_half_less[OF 1(2)] by linarith
    show ?thesis
      unfolding twiddle_loop_both[OF 1] using less[OF m] by simp
  next
    case 2
    have m: "unat (0::32 word) + unat (drop_bit 1 y_sz) < unat x_sz + unat y_sz"
      using unat_half_less[OF 2(2)] by simp
    show ?thesis
      unfolding 2(1) twiddle_loop_only_y[OF 2(2)] using less[OF m] by simp
  next
    case 3
    have m: "unat (drop_bit 1 x_sz) + unat (0::32 word) < unat x_sz + unat y_sz"
      using unat_half_less[OF 3(1)] by simp
    show ?thesis
      unfolding 3(2) twiddle_loop_only_x[OF 3(1)] using less[OF m] by simp
  next
    case 4
    then show ?thesis by (simp add: twiddle_loop_done)
  qed
qed

lemma half_power: "k < 31 \<Longrightarrow> drop_bit 1 (2 ^ Suc k :: 32 word) = 2 ^ k"
  by (subst drop_bit_exp_eq) simp

lemma unat_power: 
  assumes "k < 32" shows "unat (2 ^ k :: 32 word) = 2 ^ k"
proof -
  have "(2 ^ k :: 32 word) = of_nat (2 ^ k)" by simp
  then have "unat (2 ^ k :: 32 word) = 2 ^ k mod 2 ^ 32"
    by (simp only: unat_of_nat) simp
  moreover have "(2 ^ k :: nat) < 2 ^ 32"
    using assms by (simp only: power_strict_increasing_iff)
  ultimately show ?thesis by simp
qed

lemma half_less: 
  assumes "k < 31" "i < (2 ^ Suc k :: 32 word)" shows "drop_bit 1 i < 2 ^ k"
proof -
  have "unat i < 2 ^ Suc k" using assms unat_power[of "Suc k"] by (simp add: word_less_nat_alt)
  then have "unat i div 2 < 2 ^ k" by simp
  then have "unat (drop_bit 1 i) < unat (2 ^ k :: 32 word)"
    using assms(1) unat_power[of k] unat_half[of i] by simp
  then show ?thesis by (simp only: word_less_nat_alt)
qed

lemma power_sum_small:
  assumes "a \<le> 30" "b \<le> 30"
  shows "unat (2 ^ a :: 32 word) + unat (2 ^ b :: 32 word) < 2 ^ 32"
proof -
  have "(2 ^ a :: nat) \<le> 2 ^ 30" "(2 ^ b :: nat) \<le> 2 ^ 30"
    using assms by (simp_all only: power_increasing_iff)
  then show ?thesis
    using assms unat_power[of a] unat_power[of b] by simp
qed

lemma twiddle_square_split:
  assumes "s \<le> t" "t \<le> 30" "i < 2 ^ s" "j < 2 ^ s"
  shows "twiddle_loop i 0 (drop_bit 1 (2 ^ t)) (drop_bit 1 (2 ^ s)) 0 0
         + twiddle_loop 0 j (drop_bit 1 (2 ^ s)) (drop_bit 1 (2 ^ t)) 0 0
         = twiddle_loop i j (drop_bit 1 (2 ^ s)) (drop_bit 1 (2 ^ s)) 0 0"
  using assms
proof (induction s arbitrary: t i j)
  case 0
  then have "i = 0" "j = 0" by (simp_all add: word_less_1)
  then show ?case by (simp add: twiddle_zero)
next
  case (Suc s)
  from Suc.prems obtain t' where t: "t = Suc t'" "s \<le> t'" "t' < 30"
    by (cases t) auto
  have s30: "s < 31" "t' < 31" "s < 32" "t' < 32" using t Suc.prems by auto
  have hs: "drop_bit 1 (2 ^ Suc s :: 32 word) = 2 ^ s" and ht: "drop_bit 1 (2 ^ Suc t' :: 32 word) = 2 ^ t'"
    using s30 half_power[of s] half_power[of t'] by blast+
  have nz: "(2 ^ s :: 32 word) \<noteq> 0" "(2 ^ t' :: 32 word) \<noteq> 0"
    using s30 by (simp_all)
  have sz: "unat (2 ^ t' :: 32 word) + unat (2 ^ s :: 32 word) < 2 ^ 32"
    "unat (2 ^ s :: 32 word) + unat (2 ^ t' :: 32 word) < 2 ^ 32"
    "unat (2 ^ s :: 32 word) + unat (2 ^ s :: 32 word) < 2 ^ 32"
    using power_sum_small[of t' s] power_sum_small[of s t'] power_sum_small[of s s] t Suc.prems
    by simp_all
  have i': "drop_bit 1 i < 2 ^ s" and j': "drop_bit 1 j < 2 ^ s"
    using half_less[OF s30(1)] Suc.prems(3,4) by auto
  have IH: "twiddle_loop (drop_bit 1 i) 0 (drop_bit 1 (2 ^ t')) (drop_bit 1 (2 ^ s)) 0 0
         + twiddle_loop 0 (drop_bit 1 j) (drop_bit 1 (2 ^ s)) (drop_bit 1 (2 ^ t')) 0 0
         = twiddle_loop (drop_bit 1 i) (drop_bit 1 j) (drop_bit 1 (2 ^ s)) (drop_bit 1 (2 ^ s)) 0 0"
    using Suc.IH[OF t(2) _ i' j'] t(3) by simp
  have z: "drop_bit 1 (0 :: 32 word) = 0" "(0 :: 32 word) AND 1 = 0" by simp_all
  show ?case
    unfolding t(1) hs ht
    unfolding twiddle_step_both[OF nz(2) nz(1) sz(1)] twiddle_step_both[OF nz(1) nz(2) sz(2)]
      twiddle_step_both[OF nz(1) nz(1) sz(3)]
    unfolding bits_to_sum
    unfolding z
    unfolding IH[symmetric]
    by (simp add: algebra_simps del: drop_bit_Suc)
qed


lemma of_nat_less_power:
  assumes "s \<le> 30" "i < 2 ^ s"
  shows "(of_nat i :: 32 word) < 2 ^ s"
proof -
  have "(2 ^ s :: nat) < 2 ^ 32"
    using assms(1) by (simp only: power_strict_increasing_iff)
  then have "i mod 2 ^ 32 = i"
    using assms(2) by simp
  then have "unat (of_nat i :: 32 word) < unat (2 ^ s :: 32 word)"
    using assms unat_power[of s] by (simp add: unat_of_nat)
  then show ?thesis
    by (simp only: word_less_nat_alt)
qed

text \<open>
  Claim C6: after \<^verbatim>\<open>InitTexUtils\<close> has filled the tables, for every square log-size \<open>s\<close>
  from 0 to 10 and all coordinates \<open>i, j < 2 ^ s\<close>, the row entry plus the column entry
  is the twiddled address: \<open>detwiddle[0][s][i] + detwiddle[1][s][j] =
  twiddle_slow(i, j, 1 << s, 1 << s)\<close>.
\<close>

theorem detwiddle_square:
  assumes "s \<le> 10" "i < 2 ^ s" "j < 2 ^ s"
  shows "detwiddle 0 s i + detwiddle 1 s j
         = twiddle_slow (of_nat i) (of_nat j) (push_bit s 1) (push_bit s 1)"
proof -
  have k: "(1024 :: 32 word) = 2 ^ 10" "(push_bit s 1 :: 32 word) = 2 ^ s"
    by (simp_all add: push_bit_eq_mult)
  have "(of_nat i :: 32 word) < 2 ^ s" "(of_nat j :: 32 word) < 2 ^ s"
    using assms of_nat_less_power[of s] by simp_all
  then show ?thesis
    unfolding detwiddle_def twiddle_slow_def Let_def k
    using twiddle_square_split[of s 10 "of_nat i" "of_nat j"] assms(1)
    by simp
qed

theorem detwiddle_square_witness:
  "(2::nat) \<le> 10 \<and> (3::nat) < 2 ^ 2 \<and> (2::nat) < 2 ^ 2
   \<and> detwiddle 0 2 3 + detwiddle 1 2 2 = twiddle_slow 3 2 4 4
   \<and> twiddle_slow 3 2 4 4 = 14"
  using detwiddle_square[of 2 3 2]
  by (simp add: twiddle_slow_def twiddle_loop.simps)

subsection \<open>C7: the bump-map tables\<close>

lemma sqrt2_bounds: "179 / 127 \<le> sqrt 2" "sqrt 2 < 180 / 127"
proof -
  show "179 / 127 \<le> sqrt 2"
    by (rule real_le_rsqrt) (simp add: power2_eq_square)
  show "sqrt 2 < 180 / 127"
    by (rule real_less_lsqrt) (simp_all add: power2_eq_square)
qed

lemma sin90_128: "127 * sin ((real 128 / 256) * (pi / 2)) = 127 * sqrt 2 / 2"
proof -
  have e: "(real 128 / 256) * (pi / 2) = pi / 4" by simp
  show ?thesis unfolding e sin_45 by simp
qed

lemma quarter_angle:
  assumes "i < 256"
  shows "0 \<le> (real i / 256) * (pi / 2)" "(real i / 256) * (pi / 2) \<le> pi / 2"
proof -
  show "0 \<le> (real i / 256) * (pi / 2)" by simp
  have "real i / 256 \<le> 1" using assms by simp
  then have "(real i / 256) * (pi / 2) \<le> 1 * (pi / 2)"
    by (rule mult_right_mono) simp
  then show "(real i / 256) * (pi / 2) \<le> pi / 2" by simp
qed

lemma trunc_range:
  assumes "\<bar>v\<bar> \<le> 1"
  shows "- 127 \<le> float_to_int8 (127 * v)" "float_to_int8 (127 * v) \<le> 127"
proof -
  have "- 127 \<le> 127 * v" "127 * v \<le> 127" using assms by (simp_all add: abs_le_iff) 
  then show "- 127 \<le> float_to_int8 (127 * v)" "float_to_int8 (127 * v) \<le> 127"
    unfolding float_to_int8_def by (auto simp add: le_floor_iff floor_le_iff le_ceiling_iff ceiling_le_iff) 
qed

text \<open>
  Claim C7 states that the three bump-map tables hold the rounded products
  \<open>round (127 * sin \<dots>)\<close> and \<open>round (127 * cos \<dots>)\<close>. \<^verbatim>\<open>InitTexUtils\<close> assigns the
  floating-point product to an \<^verbatim>\<open>int8_t\<close>, and that conversion discards the fractional
  part. At index 128 the product is \<open>127 * sqrt 2 / 2\<close>, about 89.8: the table holds 89
  and the rounded value is 90. What holds for every index below 256 is that the entry
  is the product truncated toward zero, which is the floor for the two tables over a
  quarter turn (their products are not negative), and that it fits the 8-bit type.
\<close>

theorem bump_tables_truncated:
  assumes "i < 256"
  shows "BM_SIN90 i = \<lfloor>127 * sin ((real i / 256) * (pi / 2))\<rfloor>
    \<and> BM_COS90 i = \<lfloor>127 * cos ((real i / 256) * (pi / 2))\<rfloor>
    \<and> BM_COS360 i = (if 0 \<le> cos ((real i / 256) * (2 * pi))
                      then \<lfloor>127 * cos ((real i / 256) * (2 * pi))\<rfloor>
                      else \<lceil>127 * cos ((real i / 256) * (2 * pi))\<rceil>)
    \<and> BM_SIN90 i \<in> {0..127} \<and> BM_COS90 i \<in> {0..127} \<and> BM_COS360 i \<in> {-127..127}"
proof -
  note a = quarter_angle[OF assms]
  have lo: "- (pi / 2) \<le> (real i / 256) * (pi / 2)" and hi: "(real i / 256) * (pi / 2) \<le> pi"
    using a pi_ge_zero by linarith+
  have s: "0 \<le> sin ((real i / 256) * (pi / 2))"
    using a(1) hi by (rule sin_ge_zero)
  have c: "0 \<le> cos ((real i / 256) * (pi / 2))"
    using lo a(2) by (rule cos_ge_zero)
  have 1: "BM_SIN90 i = \<lfloor>127 * sin ((real i / 256) * (pi / 2))\<rfloor>"
    unfolding BM_SIN90_def float_to_int8_def using s by simp
  have 2: "BM_COS90 i = \<lfloor>127 * cos ((real i / 256) * (pi / 2))\<rfloor>"
    unfolding BM_COS90_def float_to_int8_def using c by simp
  have 3: "BM_COS360 i = (if 0 \<le> cos ((real i / 256) * (2 * pi))
                      then \<lfloor>127 * cos ((real i / 256) * (2 * pi))\<rfloor>
                      else \<lceil>127 * cos ((real i / 256) * (2 * pi))\<rceil>)"
    unfolding BM_COS360_def float_to_int8_def by simp
  have 4: "BM_SIN90 i \<in> {0..127}"
    using trunc_range[of "sin ((real i / 256) * (pi / 2))"] s unfolding 1 BM_SIN90_def[symmetric] 
    by (simp add: 1)
  have 5: "BM_COS90 i \<in> {0..127}"
    using trunc_range[of "cos ((real i / 256) * (pi / 2))"] c unfolding BM_COS90_def[symmetric] 
    by (simp add: 2)
  have 6: "BM_COS360 i \<in> {-127..127}"
    using trunc_range[of "cos ((real i / 256) * (2 * pi))"] unfolding BM_COS360_def[symmetric] 
    by simp
  show ?thesis using 1 2 3 4 5 6 by blast
qed

theorem bump_tables_truncated_witness:
  "(128::nat) < 256
   \<and> BM_SIN90 128 = \<lfloor>127 * sin ((real 128 / 256) * (pi / 2))\<rfloor>
   \<and> BM_COS90 128 = \<lfloor>127 * cos ((real 128 / 256) * (pi / 2))\<rfloor>
   \<and> BM_SIN90 128 \<in> {0..127} \<and> BM_COS90 128 \<in> {0..127} \<and> BM_COS360 128 \<in> {-127..127}"
proof -
  have h: "(128::nat) < 256"
    by simp
  from bump_tables_truncated[OF h] h show ?thesis
    by blast
qed

theorem BM_SIN90_truncated_not_rounded: "BM_SIN90 128 = 89 \<and> round (127 * sin ((real 128 / 256) * (pi / 2))) = 90"
proof -
  have b: "89.5 \<le> 127 * sqrt 2 / 2" "127 * sqrt 2 / 2 < 90"
    using sqrt2_bounds by simp_all
  have "\<lfloor>127 * sqrt 2 / 2\<rfloor> = 89"
    using b by (simp add: floor_eq_iff)
  moreover have "round (127 * sqrt 2 / 2) = 90"
    using b by (simp add: round_def floor_eq_iff)
  ultimately show ?thesis
    unfolding BM_SIN90_def float_to_int8_def sin90_128 using b by simp
qed

subsection \<open>The calls made to the tile back end\<close>


lemma recording_GetMoreToDraw: "GetMoreToDraw (recording api) st = GetMoreToDraw api (fst st)"
  by (simp add: recording_def)



















lemma vri_vram_ones: "vri vram_ones a = 0xFFFFFFFF"
  by (simp add: vri_def vram_ones_def)

lemma PvrReg_regs_zero: "PvrReg regs_zero a = 0"
  by (simp add: PvrReg_def regs_zero_def)

lemma Read_ones:
  "ReadRegionArrayEntry regs_zero vram_ones base =
    (\<lparr> control = 0xDFFFFFFF, opaque = 0xFFFFFFFF, opaque_mod = 0xFFFFFFFF, trans = 0xFFFFFFFF,
       trans_mod = 0xFFFFFFFF, puncht = 0x80000000 \<rparr>, 20)"
  by (simp add: ReadRegionArrayEntry_def vri_vram_ones FPU_PARAM_CFG_def ISP_FEED_CFG_def
      PvrReg_regs_zero region_header_type_def feed_pre_sort_def bitfield_def set_bitfield_def)

lemma Read_one_tile_zero:
  "ReadRegionArrayEntry regs_zero vram_one_tile 0 =
    (\<lparr> control = 0x80000000, opaque = 0x80000000, opaque_mod = 0x80000000, trans = 0x80000000,
       trans_mod = 0x80000000, puncht = 0x80000000 \<rparr>, 20)"
  by (simp add: ReadRegionArrayEntry_def vri_one_tile FPU_PARAM_CFG_def ISP_FEED_CFG_def
      PvrReg_regs_zero region_header_type_def feed_pre_sort_def bitfield_def set_bitfield_def
      mask_eq_exp_minus_1)



subsection \<open>C10: the opaque tag pass runs for every tile\<close>



subsection \<open>The region loop\<close>

lemma region_loop_step:
  assumes "ReadRegionArrayEntry r (fst s) base = (entry, step)"
    and "last_region (control entry) = 0"
    and "RenderTile api r entry s = Some (Inr s1)"
  shows "region_loop api r base s = region_loop api r (base + step) s1"
  using assms by (subst region_loop.simps) simp

lemma region_loop_last:
  assumes "ReadRegionArrayEntry r (fst s) base = (entry, step)"
    and "last_region (control entry) \<noteq> 0"
    and "RenderTile api r entry s = Some (Inr s1)"
  shows "region_loop api r base s = Some (Inr s1)"
  using assms by (subst region_loop.simps) simp

lemma region_loop_stop:
  assumes "ReadRegionArrayEntry r (fst s) base = (entry, step)"
    and "RenderTile api r entry s = Some (Inl e)"
  shows "region_loop api r base s = Some (Inl e)"
  using assms by (subst region_loop.simps) simp

lemma region_walk_loop:
  "region_walk api r base s base1 s1 \<Longrightarrow> region_loop api r base s = region_loop api r base1 s1"
  by (induction rule: region_walk.induct) (simp_all add: region_loop_step)

lemma region_walk_prepend:
  assumes "region_walk api r base1 s1 base2 s2"
    and "ReadRegionArrayEntry r (fst s) base = (entry, step)"
    and "last_region (control entry) = 0"
    and "RenderTile api r entry s = Some (Inr s1)"
    and "base1 = base + step"
  shows "region_walk api r base s base2 s2"
  using assms
proof (induction rule: region_walk.induct)
  case walk_start
  then show ?case
    using region_walk.walk_next[OF region_walk.walk_start, of r s base entry step api s1] by simp
next
  case (walk_next b s' entry' step' s2')
  then show ?case
    using region_walk.walk_next by blast
qed

lemma region_loop_returns:
  assumes "region_loop api r base s = Some res"
  shows "\<forall>s'. res = Inr s' \<longrightarrow>
    (\<exists>base1 s1 entry step. region_walk api r base s base1 s1
        \<and> ReadRegionArrayEntry r (fst s1) base1 = (entry, step)
        \<and> last_region (control entry) \<noteq> 0
        \<and> RenderTile api r entry s1 = Some (Inr s'))"
  using assms
proof (induction rule: region_loop.raw_induct[rotated, consumes 1])
  case (1 f api r base s res)
  obtain entry step where rd: "ReadRegionArrayEntry r (fst s) base = (entry, step)"
    by (cases "ReadRegionArrayEntry r (fst s) base")
  show ?case
  proof (intro allI impI)
    fix s'
    assume res: "res = Inr s'"
    from "1"(2) rd res obtain s1 where
      t: "RenderTile api r entry s = Some (Inr s1)"
      and k: "(if last_region (control entry) \<noteq> 0 then Some (Inr s1)
               else f api r (base + step) s1) = Some (Inr s')"
      by (auto simp add: Let_def split: option.splits sum.splits)
    show "\<exists>base1 s1 entry step. region_walk api r base s base1 s1
        \<and> ReadRegionArrayEntry r (fst s1) base1 = (entry, step)
        \<and> last_region (control entry) \<noteq> 0
        \<and> RenderTile api r entry s1 = Some (Inr s')"
    proof (cases "last_region (control entry) \<noteq> 0")
      case True
      with k have "s1 = s'" by simp
      with t rd True show ?thesis
        using region_walk.walk_start by blast
    next
      case False
      with k have "f api r (base + step) s1 = Some (Inr s')" by simp
      from "1"(1)[OF this] obtain base2 s2 entry2 step2 where
        w: "region_walk api r (base + step) s1 base2 s2"
        and x: "ReadRegionArrayEntry r (fst s2) base2 = (entry2, step2)"
           "last_region (control entry2) \<noteq> 0" "RenderTile api r entry2 s2 = Some (Inr s')"
        by blast
      have "region_walk api r base s base2 s2"
        using region_walk_prepend[OF w rd _ t] False by simp
      with x show ?thesis by blast
    qed
  qed
qed

lemma RenderTile_ones:
  "RenderTile idle_tile regs_zero
     \<lparr> control = 0xDFFFFFFF, opaque = 0xFFFFFFFF, opaque_mod = 0xFFFFFFFF, trans = 0xFFFFFFFF,
       trans_mod = 0xFFFFFFFF, puncht = 0x80000000 \<rparr> (vram_ones, ()) = Some (Inr (vram_ones, ()))"
  by (simp add: RenderTile_def tile_passes_def tile_opaque_def tile_punchthrough_def
      tile_translucent_def empty_list_def no_writeout_def bitfield_def)

lemma unat_mod_8_add:
  assumes "unat (b :: 32 word) mod 8 = 0"
  shows "unat (b + 4) mod 8 = 4" "unat (b + 8) mod 8 = 0" "unat (b + 12) mod 8 = 4"
    "unat (b + 16) mod 8 = 0" "unat (b + 20) mod 8 = 4" "unat (b + 24) mod 8 = 0"
proof -
  have m: "unat (b + c) mod 8 = (unat b + unat c) mod 8" for c :: "32 word"
  proof -
    have "unat (b + c) = (unat b + unat c) mod 2 ^ 32"
      by (simp add: unat_word_ariths)
    moreover have "(8::nat) dvd 2 ^ 32" by simp
    ultimately show ?thesis by (simp only: mod_mod_cancel)
  qed
  show "unat (b + 4) mod 8 = 4" "unat (b + 8) mod 8 = 0" "unat (b + 12) mod 8 = 4"
    "unat (b + 16) mod 8 = 0" "unat (b + 20) mod 8 = 4" "unat (b + 24) mod 8 = 0"
    unfolding m using assms by (simp_all) presburger+
qed

lemma bit_3_unat: "bit (w :: 32 word) 3 \<longleftrightarrow> (unat w div 8) mod 2 = 1"
proof -
  have "bit w 3 \<longleftrightarrow> bit (unat w) 3"
    by (simp add: bit_unsigned_iff)
  also have "\<dots> \<longleftrightarrow> odd (unat w div 2 ^ 3)"
    by (simp only: bit_iff_odd)
  finally show ?thesis by (simp add: odd_iff_mod_2_eq_one)
qed

lemma bit_2_unat: "bit (w :: 32 word) 2 \<longleftrightarrow> (unat w div 4) mod 2 = 1"
proof -
  have "bit w 2 \<longleftrightarrow> bit (unat w) 2"
    by (simp add: bit_unsigned_iff)
  also have "\<dots> \<longleftrightarrow> odd (unat w div 2 ^ 2)"
    by (simp only: bit_iff_odd)
  finally show ?thesis by (simp add: odd_iff_mod_2_eq_one)
qed


lemma vri_vram_no_last:
  assumes "unat a mod 4 = 0"
  shows "vri vram_no_last a = (if (unat a div 4) mod 2 = 1 then 0x80000000 else 0x10000000)"
proof -
  define i where "i = unat (pvr_map32 a)"
  have i4: "i mod 4 = 0"
    unfolding i_def using assms by (simp add: unat_pvr_map32_mod4)
  have "bit (pvr_map32 a) 3 \<longleftrightarrow> bit a 2"
    by (simp add: bit_pvr_map32)
  then have i8: "(i div 8) mod 2 = 1 \<longleftrightarrow> (unat a div 4) mod 2 = 1"
    unfolding i_def bit_3_unat bit_2_unat .
  have m: "(i + 1) mod 4 = 1" "(i + 2) mod 4 = 2" "(i + 3) mod 4 = 3" "(i + 3) div 8 = i div 8"
    using i4 by presburger+
  have v: "vram_no_last i = 0" "vram_no_last (i + 1) = 0" "vram_no_last (i + 2) = 0"
    "vram_no_last (i + 3) = (if (unat a div 4) mod 2 = 1 then 0x80 else 0x10)"
    using i4 m i8 by (simp_all add: vram_no_last_def)
  show ?thesis
    unfolding vri_def Let_def i_def[symmetric] v by simp
qed

lemma vri_vram_no_last_0: "unat a mod 8 = 0 \<Longrightarrow> vri vram_no_last a = 0x10000000"
proof -
  assume a: "unat a mod 8 = 0"
  then have "unat a mod 4 = 0" "(unat a div 4) mod 2 \<noteq> 1" by presburger+
  then show ?thesis by (simp add: vri_vram_no_last)
qed

lemma vri_vram_no_last_4: "unat a mod 8 = 4 \<Longrightarrow> vri vram_no_last a = 0x80000000"
proof -
  assume a: "unat a mod 8 = 4"
  then have "unat a mod 4 = 0" "(unat a div 4) mod 2 = 1" by presburger+
  then show ?thesis by (simp add: vri_vram_no_last)
qed

lemma regs_six_words_values:
  "REGION_BASE regs_six_words = 0" "FPU_PARAM_CFG regs_six_words = 0x200000"
  by (simp_all add: regs_six_words_def PvrReg_def REGION_BASE_def FPU_PARAM_CFG_def
      REGION_BASE_addr_def FPU_PARAM_CFG_addr_def pvr_RegMask_def pvr_RegSize_def)

lemma Read_no_last:
  assumes "unat base mod 8 = 0"
  shows "ReadRegionArrayEntry regs_six_words vram_no_last base =
    (\<lparr> control = 0x10000000, opaque = 0x80000000, opaque_mod = 0x10000000, trans = 0x80000000,
       trans_mod = 0x10000000, puncht = 0x80000000 \<rparr>, 24)"
  using assms unat_mod_8_add[OF assms]
  by (simp add: ReadRegionArrayEntry_def regs_six_words_values region_header_type_def bitfield_def
      vri_vram_no_last_0 vri_vram_no_last_4)

lemma RenderTile_no_last:
  "RenderTile idle_tile regs_six_words
     \<lparr> control = 0x10000000, opaque = 0x80000000, opaque_mod = 0x10000000, trans = 0x80000000,
       trans_mod = 0x10000000, puncht = 0x80000000 \<rparr> (vram_no_last, ()) = Some (Inr (vram_no_last, ()))"
  by (simp add: RenderTile_def tile_passes_def tile_opaque_def tile_punchthrough_def
      tile_translucent_def empty_list_def no_writeout_def bitfield_def)

lemma region_loop_no_last:
  assumes "region_loop api r base s = Some res"
  shows "\<not> (api = idle_tile \<and> r = regs_six_words \<and> unat base mod 8 = 0 \<and> s = (vram_no_last, ()))"
  using assms
proof (induction rule: region_loop.raw_induct[rotated, consumes 1])
  case (1 f api r base s res)
  show ?case
  proof
    assume a: "api = idle_tile \<and> r = regs_six_words \<and> unat base mod 8 = 0 \<and> s = (vram_no_last, ())"
    then have b: "unat base mod 8 = 0" by simp
    from "1"(2) have "f api r (base + 24) s = Some res"
      using a by (simp add: Read_no_last[OF b] RenderTile_no_last last_region_def bitfield_def)
    from "1"(1)[OF this] a unat_mod_8_add(6)[OF b] show False
      by simp
  qed
qed

subsection \<open>C1: when the frame ends\<close>

text \<open>
  Claim C1 states that \<^verbatim>\<open>render\<close> halts if and only if one of the first 1024 region
  entries has \<^verbatim>\<open>last_region = 1\<close>, and that it returns the error \<^verbatim>\<open>MalformedList\<close>
  otherwise. The loop of \<^verbatim>\<open>RenderCORE\<close> counts nothing and returns nothing: it reads
  entries until one has \<^verbatim>\<open>last_region = 1\<close>, wrapping around the address space. On
  \<open>vram_no_last\<close>, where every word read as a control word has \<^verbatim>\<open>last_region = 0\<close> and
  every tile is empty and not written out, \<^verbatim>\<open>RenderCORE\<close> does not return. What holds:
  \<^verbatim>\<open>RenderCORE\<close> returns exactly when the walk over the region array, at whatever
  distance from its start, reaches an entry with \<^verbatim>\<open>last_region = 1\<close> whose tile is
  rendered, all tiles before it having been rendered.
\<close>

theorem RenderCORE_returns_iff_last_region_reached:
  "RenderCORE api r s = Some (Inr s') \<longleftrightarrow>
     (\<exists>base1 s1 entry step. region_walk api r (REGION_BASE r) s base1 s1
        \<and> ReadRegionArrayEntry r (fst s1) base1 = (entry, step)
        \<and> last_region (control entry) \<noteq> 0
        \<and> RenderTile api r entry s1 = Some (Inr s'))"
proof
  assume "RenderCORE api r s = Some (Inr s')"
  then show "\<exists>base1 s1 entry step. region_walk api r (REGION_BASE r) s base1 s1
        \<and> ReadRegionArrayEntry r (fst s1) base1 = (entry, step)
        \<and> last_region (control entry) \<noteq> 0
        \<and> RenderTile api r entry s1 = Some (Inr s')"
    unfolding RenderCORE_def using region_loop_returns by blast
next
  assume "\<exists>base1 s1 entry step. region_walk api r (REGION_BASE r) s base1 s1
        \<and> ReadRegionArrayEntry r (fst s1) base1 = (entry, step)
        \<and> last_region (control entry) \<noteq> 0
        \<and> RenderTile api r entry s1 = Some (Inr s')"
  then show "RenderCORE api r s = Some (Inr s')"
    unfolding RenderCORE_def using region_walk_loop region_loop_last by metis
qed


theorem RenderCORE_returns_iff_last_region_reached_witness:
  "region_walk idle_tile regs_zero (REGION_BASE regs_zero) (vram_ones, ()) (REGION_BASE regs_zero) (vram_ones, ())
   \<and> last_region (control (fst (ReadRegionArrayEntry regs_zero vram_ones (REGION_BASE regs_zero)))) \<noteq> 0
   \<and> RenderCORE idle_tile regs_zero (vram_ones, ()) = Some (Inr (vram_ones, ()))"
proof -
  have w: "region_walk idle_tile regs_zero (REGION_BASE regs_zero) (vram_ones, ())
      (REGION_BASE regs_zero) (vram_ones, ())"
    by (rule region_walk.walk_start)
  have l: "last_region (control (fst (ReadRegionArrayEntry regs_zero vram_ones (REGION_BASE regs_zero)))) \<noteq> 0"
    by (simp add: Read_ones last_region_def bitfield_def)
  have "\<exists>base1 s1 entry step.
      region_walk idle_tile regs_zero (REGION_BASE regs_zero) (vram_ones, ()) base1 s1
      \<and> ReadRegionArrayEntry regs_zero (fst s1) base1 = (entry, step)
      \<and> last_region (control entry) \<noteq> 0
      \<and> RenderTile idle_tile regs_zero entry s1 = Some (Inr (vram_ones, ()))"
    using w l Read_ones RenderTile_ones
    by (intro exI[of _ "REGION_BASE regs_zero"] exI[of _ "(vram_ones, ())"]
        exI[of _ "fst (ReadRegionArrayEntry regs_zero vram_ones (REGION_BASE regs_zero))"]
        exI[of _ 20]) simp
  then have "RenderCORE idle_tile regs_zero (vram_ones, ()) = Some (Inr (vram_ones, ()))"
    by (simp only: RenderCORE_returns_iff_last_region_reached)
  with w l show ?thesis
    by blast
qed

theorem RenderCORE_without_last_region_diverges:
  "last_region (vri vram_no_last 0) = 0
   \<and> RenderCORE idle_tile regs_six_words (vram_no_last, ()) = None"
proof -
  have "RenderCORE idle_tile regs_six_words (vram_no_last, ()) = None"
  proof (cases "RenderCORE idle_tile regs_six_words (vram_no_last, ())")
    case None
    then show ?thesis .
  next
    case (Some res)
    then show ?thesis
      using region_loop_no_last[of idle_tile regs_six_words 0 "(vram_no_last, ())" res]
      by (simp add: RenderCORE_def regs_six_words_values)
  qed
  then show ?thesis
    by (simp add: vri_vram_no_last_0 last_region_def bitfield_def)
qed


subsection \<open>C8: unsupported register configurations\<close>

lemma write_pixel_no_assert:
  "write_pixel packmode src_buf x y dst src vram \<noteq> Inl (AssertionFailed, v)"
  by (simp add: write_pixel_def pvr_write_area1_16_def pvr_write_area1_32_def Let_def)

lemma writeout_row_no_assert:
  "writeout_row packmode src_buf y x dst src vram \<noteq> Inl (AssertionFailed, v)"
proof (induction packmode src_buf y x dst src vram rule: writeout_row.induct)
  case (1 packmode src_buf y x dst src vram)
  show ?case
  proof (cases "x < 32")
    case False
    then show ?thesis by simp
  next
    case True
    show ?thesis
    proof (cases "write_pixel packmode src_buf x y dst src vram")
      case (Inl e)
      then show ?thesis
        using True write_pixel_no_assert[of packmode src_buf x y dst src vram v]
        by (subst writeout_row.simps) simp
    next
      case (Inr vram')
      then show ?thesis
        using True "1.IH"[OF True Inr]
        by (subst writeout_row.simps) simp
    qed
  qed
qed

lemma writeout_rows_no_assert:
  "writeout_rows r entry base src_buf y src vram \<noteq> Inl (AssertionFailed, v)"
proof (induction r entry base src_buf y src vram rule: writeout_rows.induct)
  case (1 r entry base src_buf y src vram)
  show ?case
  proof (cases "y < 32")
    case False
    then show ?thesis by simp
  next
    case True
    let ?packmode = "fb_packmode (FB_W_CTRL r)"
    let ?bpp = "(if ?packmode = 1 then 2 else 4) :: 32 word"
    let ?offset = "tilex (control entry) * 32 * ?bpp
                   + tiley (control entry) * 32 * stride (FB_W_LINESTRIDE r) * 8"
    let ?dst = "base + ?offset + of_nat y * stride (FB_W_LINESTRIDE r) * 8"
    show ?thesis
    proof (cases "writeout_row ?packmode src_buf y 0 ?dst src vram")
      case (Inl e)
      then show ?thesis
        using True writeout_row_no_assert[of ?packmode src_buf y 0 ?dst src vram v]
        by (subst writeout_rows.simps) (simp add: Let_def del: writeout_row.simps)
    next
      case (Inr p)
      obtain src' vram' where p: "p = (src', vram')" by (cases p)
      show ?thesis
        using True Inr p "1.IH"[OF True refl refl refl refl Inr[unfolded p] refl]
        by (subst writeout_rows.simps) (simp add: Let_def del: writeout_row.simps)
    qed
  qed
qed

lemma tile_writeout_assert:
  "tile_writeout r entry copy vram = Inl (AssertionFailed, v) \<longleftrightarrow> \<not> config_supported r \<and> v = vram"
  using writeout_rows_no_assert[of r entry _ copy 0 0 vram v]
  by (auto simp add: tile_writeout_def c_assert_def config_supported_def Let_def
      simp del: writeout_rows.simps)

lemma RenderTile_assert:
  "RenderTile api r entry s = Some (Inl (AssertionFailed, v, t)) \<longleftrightarrow>
     tile_passes api r (fst s) entry (snd s) = Some t \<and> no_writeout (control entry) = 0
     \<and> \<not> config_supported r \<and> v = fst s"
proof (cases "tile_passes api r (fst s) entry (snd s)")
  case None
  then show ?thesis by (simp add: RenderTile_def)
next
  case (Some t')
  show ?thesis
  proof (cases "no_writeout (control entry) = 0")
    case False
    with Some show ?thesis by (simp add: RenderTile_def)
  next
    case True
    show ?thesis
    proof (cases "tile_writeout r entry (GetColorOutputBuffer api t') (fst s)")
      case (Inl x)
      obtain e v' where x: "x = (e, v')" by (cases x)
      show ?thesis
        using tile_writeout_assert[of r entry "GetColorOutputBuffer api t'" "fst s" v] Inl x
        by (auto simp add: RenderTile_def Some True)
    next
      case (Inr vram')
      then show ?thesis
        using tile_writeout_assert[of r entry "GetColorOutputBuffer api t'" "fst s" v]
        by (auto simp add: RenderTile_def Some True)
    qed
  qed
qed

lemma RenderTile_no_writeout:
  assumes "no_writeout (control entry) \<noteq> 0"
  shows "RenderTile api r entry s
    = map_option (\<lambda>t. Inr (fst s, t)) (tile_passes api r (fst s) entry (snd s))"
  using assms by (cases "tile_passes api r (fst s) entry (snd s)") (simp_all add: RenderTile_def)

lemma region_loop_stops:
  assumes "region_loop api r base s = Some res"
  shows "\<forall>x. res = Inl x \<longrightarrow>
    (\<exists>base1 s1 entry step. region_walk api r base s base1 s1
        \<and> ReadRegionArrayEntry r (fst s1) base1 = (entry, step)
        \<and> RenderTile api r entry s1 = Some (Inl x))"
  using assms
proof (induction rule: region_loop.raw_induct[rotated, consumes 1])
  case (1 f api r base s res)
  obtain entry step where rd: "ReadRegionArrayEntry r (fst s) base = (entry, step)"
    by (cases "ReadRegionArrayEntry r (fst s) base")
  show ?case
  proof (intro allI impI)
    fix x
    assume res: "res = Inl x"
    show "\<exists>base1 s1 entry step. region_walk api r base s base1 s1
        \<and> ReadRegionArrayEntry r (fst s1) base1 = (entry, step)
        \<and> RenderTile api r entry s1 = Some (Inl x)"
    proof (cases "RenderTile api r entry s")
      case None
      with "1"(2) rd show ?thesis by simp
    next
      case (Some y)
      show ?thesis
      proof (cases y)
        case (Inl e)
        with "1"(2) rd Some res have "RenderTile api r entry s = Some (Inl x)"
          by simp
        with rd show ?thesis
          using region_walk.walk_start by blast
      next
        case (Inr s1)
        with "1"(2) rd Some res have l: "last_region (control entry) = 0"
          and k: "f api r (base + step) s1 = Some (Inl x)"
          by (simp_all split: if_splits)
        from "1"(1)[OF k] obtain base2 s2 entry2 step2 where
          w: "region_walk api r (base + step) s1 base2 s2"
          and y: "ReadRegionArrayEntry r (fst s2) base2 = (entry2, step2)"
             "RenderTile api r entry2 s2 = Some (Inl x)"
          by blast
        have "region_walk api r base s base2 s2"
          using region_walk_prepend[OF w rd l] Some Inr by simp
        with y show ?thesis by blast
      qed
    qed
  qed
qed

lemma regs_zero_unsupported: "\<not> config_supported regs_zero"
  by (simp add: config_supported_def FB_W_CTRL_def PvrReg_regs_zero fb_packmode_def bitfield_def)

text \<open>
  Claim C8 states that \<^verbatim>\<open>render\<close> aborts the frame with a \<^verbatim>\<open>ConfigurationUnsupported\<close>
  error returned to the caller whenever the register configuration is unsupported.
  \<^verbatim>\<open>RenderCORE\<close> returns \<^verbatim>\<open>void\<close>, and the configuration is examined only by the
  assertions at the head of the writeback of a tile, which is skipped for an entry with
  \<^verbatim>\<open>no_writeout = 1\<close>: with all registers zero (pack mode 0, scale factor 0) and one
  tile that is not written out, \<^verbatim>\<open>RenderCORE\<close> returns normally. What holds: the frame
  stops at a failed assertion exactly when the configuration is unsupported and the
  region loop, having rendered every tile before it, reaches an entry with
  \<^verbatim>\<open>no_writeout = 0\<close> whose passes return; the memory is then as it was when that tile
  was reached, so no pixel of the tile has been stored, and the tile buffers are those
  the passes left. A tile with \<^verbatim>\<open>no_writeout = 1\<close> is rendered as its passes alone,
  whatever the configuration: it leaves the memory as it is and stops at no assertion.
\<close>

theorem unsupported_config_stops_at_assertion:
  "(RenderCORE api r s = Some (Inl (AssertionFailed, v, t)) \<longleftrightarrow>
      \<not> config_supported r
      \<and> (\<exists>base1 s1 entry step. region_walk api r (REGION_BASE r) s base1 s1
            \<and> ReadRegionArrayEntry r (fst s1) base1 = (entry, step)
            \<and> no_writeout (control entry) = 0
            \<and> tile_passes api r (fst s1) entry (snd s1) = Some t
            \<and> v = fst s1))
   \<and> (no_writeout (control entry') \<noteq> 0 \<longrightarrow>
        RenderTile api r entry' s0
          = map_option (\<lambda>t'. Inr (fst s0, t')) (tile_passes api r (fst s0) entry' (snd s0)))"
proof (rule conjI)
  show "no_writeout (control entry') \<noteq> 0 \<longrightarrow>
        RenderTile api r entry' s0
          = map_option (\<lambda>t'. Inr (fst s0, t')) (tile_passes api r (fst s0) entry' (snd s0))"
    by (simp add: RenderTile_no_writeout)
next
  show "RenderCORE api r s = Some (Inl (AssertionFailed, v, t)) \<longleftrightarrow>
      \<not> config_supported r
      \<and> (\<exists>base1 s1 entry step. region_walk api r (REGION_BASE r) s base1 s1
            \<and> ReadRegionArrayEntry r (fst s1) base1 = (entry, step)
            \<and> no_writeout (control entry) = 0
            \<and> tile_passes api r (fst s1) entry (snd s1) = Some t
            \<and> v = fst s1)"
  proof
  assume "RenderCORE api r s = Some (Inl (AssertionFailed, v, t))"
  then obtain base1 s1 entry step where
    w: "region_walk api r (REGION_BASE r) s base1 s1"
    and rd: "ReadRegionArrayEntry r (fst s1) base1 = (entry, step)"
    and rt: "RenderTile api r entry s1 = Some (Inl (AssertionFailed, v, t))"
    unfolding RenderCORE_def using region_loop_stops by blast
  from rt have "tile_passes api r (fst s1) entry (snd s1) = Some t \<and> no_writeout (control entry) = 0
     \<and> \<not> config_supported r \<and> v = fst s1"
    by (simp add: RenderTile_assert)
  with w rd show "\<not> config_supported r
      \<and> (\<exists>base1 s1 entry step. region_walk api r (REGION_BASE r) s base1 s1
            \<and> ReadRegionArrayEntry r (fst s1) base1 = (entry, step)
            \<and> no_writeout (control entry) = 0
            \<and> tile_passes api r (fst s1) entry (snd s1) = Some t
            \<and> v = fst s1)"
    by blast
next
  assume "\<not> config_supported r
      \<and> (\<exists>base1 s1 entry step. region_walk api r (REGION_BASE r) s base1 s1
            \<and> ReadRegionArrayEntry r (fst s1) base1 = (entry, step)
            \<and> no_writeout (control entry) = 0
            \<and> tile_passes api r (fst s1) entry (snd s1) = Some t
            \<and> v = fst s1)"
  then obtain base1 s1 entry step where
    c: "\<not> config_supported r"
    and w: "region_walk api r (REGION_BASE r) s base1 s1"
    and rd: "ReadRegionArrayEntry r (fst s1) base1 = (entry, step)"
    and n: "no_writeout (control entry) = 0"
    and p: "tile_passes api r (fst s1) entry (snd s1) = Some t"
    and v: "v = fst s1"
    by blast
  have "RenderTile api r entry s1 = Some (Inl (AssertionFailed, v, t))"
    using c n p v by (simp add: RenderTile_assert)
  then have "region_loop api r base1 s1 = Some (Inl (AssertionFailed, v, t))"
    using rd by (rule region_loop_stop[rotated])
  then show "RenderCORE api r s = Some (Inl (AssertionFailed, v, t))"
    unfolding RenderCORE_def using region_walk_loop[OF w] by simp
  qed
qed

theorem unsupported_config_stops_at_assertion_witness:
  "\<not> config_supported regs_zero
   \<and> region_walk idle_tile regs_zero (REGION_BASE regs_zero) (vram_one_tile, ())
        (REGION_BASE regs_zero) (vram_one_tile, ())
   \<and> no_writeout (control (fst (ReadRegionArrayEntry regs_zero vram_one_tile (REGION_BASE regs_zero)))) = 0
   \<and> RenderCORE idle_tile regs_zero (vram_one_tile, ()) = Some (Inl (AssertionFailed, vram_one_tile, ()))
   \<and> no_writeout (control (fst (ReadRegionArrayEntry regs_zero vram_ones 0))) \<noteq> 0
   \<and> RenderTile idle_tile regs_zero (fst (ReadRegionArrayEntry regs_zero vram_ones 0)) (vram_ones, ())
       = Some (Inr (vram_ones, ()))"
proof -
  let ?e = "fst (ReadRegionArrayEntry regs_zero vram_one_tile (REGION_BASE regs_zero))"
  let ?o = "fst (ReadRegionArrayEntry regs_zero vram_ones 0)"
  have b: "REGION_BASE regs_zero = 0"
    by (simp add: REGION_BASE_def PvrReg_regs_zero)
  have w: "region_walk idle_tile regs_zero (REGION_BASE regs_zero) (vram_one_tile, ())
      (REGION_BASE regs_zero) (vram_one_tile, ())"
    by (rule region_walk.walk_start)
  have n: "no_writeout (control ?e) = 0"
    by (simp add: b Read_one_tile_zero no_writeout_def bitfield_def)
  have p: "tile_passes idle_tile regs_zero (fst (vram_one_tile, ())) ?e (snd (vram_one_tile, ())) = Some ()"
    by (simp add: b Read_one_tile_zero tile_passes_def tile_opaque_def tile_punchthrough_def
        tile_translucent_def empty_list_def bitfield_def)
  have rd: "ReadRegionArrayEntry regs_zero (fst (vram_one_tile, ())) (REGION_BASE regs_zero) = (?e, 20)"
    by (simp add: b Read_one_tile_zero)
  have m: "no_writeout (control ?o) \<noteq> 0"
    by (simp add: Read_ones no_writeout_def bitfield_def)
  have q: "tile_passes idle_tile regs_zero vram_ones ?o () = Some ()"
    by (simp add: Read_ones tile_passes_def tile_opaque_def tile_punchthrough_def
        tile_translucent_def empty_list_def bitfield_def)
  note k = unsupported_config_stops_at_assertion[of idle_tile regs_zero "(vram_one_tile, ())"
      vram_one_tile "()" ?o "(vram_ones, ())"]
  have "\<exists>base1 s1 entry step.
      region_walk idle_tile regs_zero (REGION_BASE regs_zero) (vram_one_tile, ()) base1 s1
      \<and> ReadRegionArrayEntry regs_zero (fst s1) base1 = (entry, step)
      \<and> no_writeout (control entry) = 0
      \<and> tile_passes idle_tile regs_zero (fst s1) entry (snd s1) = Some ()
      \<and> vram_one_tile = fst s1"
    using w rd n p
    by (intro exI[of _ "REGION_BASE regs_zero"] exI[of _ "(vram_one_tile, ())"] exI[of _ ?e]
        exI[of _ 20]) simp
  with regs_zero_unsupported k
  have r1: "RenderCORE idle_tile regs_zero (vram_one_tile, ()) = Some (Inl (AssertionFailed, vram_one_tile, ()))"
    by blast
  from k m have "RenderTile idle_tile regs_zero ?o (vram_ones, ())
      = map_option (\<lambda>t'. Inr (fst (vram_ones, ()), t')) (tile_passes idle_tile regs_zero (fst (vram_ones, ())) ?o (snd (vram_ones, ())))"
    by blast
  then have r2: "RenderTile idle_tile regs_zero ?o (vram_ones, ()) = Some (Inr (vram_ones, ()))"
    using q by simp
  from regs_zero_unsupported w n r1 m r2 show ?thesis
    by blast
qed

theorem unsupported_config_unchecked_without_writeout:
  "fb_packmode (FB_W_CTRL regs_zero) = 0 \<and> vscalefactor (SCALER_CTL regs_zero) = 0
   \<and> \<not> config_supported regs_zero
   \<and> RenderCORE idle_tile regs_zero (vram_ones, ()) = Some (Inr (vram_ones, ()))"
proof -
  have "RenderCORE idle_tile regs_zero (vram_ones, ()) = Some (Inr (vram_ones, ()))"
    unfolding RenderCORE_def
    by (subst region_loop.simps) (simp add: Read_ones RenderTile_ones last_region_def bitfield_def)
  then show ?thesis
    using regs_zero_unsupported
    by (simp add: FB_W_CTRL_def SCALER_CTL_def PvrReg_regs_zero fb_packmode_def vscalefactor_def bitfield_def)
qed

end
